theory Spec2Isabelle
  imports Complex_Main "HOL-Library.Multiset"
begin

section \<open>The dispatch loop of \<open>src/main.py\<close>\<close>

text \<open>
  The development embeds \<open>executar_politica\<close>, the dispatch-and-collection loop of the
  simulator. Python numbers (JSON numbers, \<open>time.time()\<close>) are idealised as integers
  (identifiers, priorities, capacities, loads) and rationals (times and durations).
  What the loop reads from its surroundings is an input of the model: the clock readings
  and the responses found on the return queue. The classes and functions imported from
  \<open>scheduler\<close>, \<open>worker\<close>, \<open>ipc\<close> and \<open>utils\<close> are not part of the sources; the scheduler
  is a parameter of the loop.
\<close>

subsection \<open>Errors and dictionaries\<close>

datatype error = KeyError | ValueError | TypeError | ZeroDivisionError | SchedulerContract

text \<open>
  A Python \<open>dict\<close>: the keys in insertion order and the table. Assigning to a key that is
  present keeps its position; a new key goes to the end.
\<close>

record ('k, 'v) dict =
  chaves :: "'k list"
  tab :: "'k \<Rightarrow> 'v option"

definition dict_empty :: "('k, 'v) dict" where
  "dict_empty = \<lparr>chaves = [], tab = (\<lambda>_. None)\<rparr>"

definition dict_set :: "('k, 'v) dict \<Rightarrow> 'k \<Rightarrow> 'v \<Rightarrow> ('k, 'v) dict" where
  "dict_set d k v =
     \<lparr>chaves = (if k \<in> set (chaves d) then chaves d else chaves d @ [k]),
      tab = (tab d)(k := Some v)\<rparr>"

definition dict_items :: "('k, 'v) dict \<Rightarrow> ('k \<times> 'v) list" where
  "dict_items d = List.map_filter (\<lambda>k. map_option (Pair k) (tab d k)) (chaves d)"

definition dict_values :: "('k, 'v) dict \<Rightarrow> 'v list" where
  "dict_values d = map snd (dict_items d)"

definition dict_len :: "('k, 'v) dict \<Rightarrow> nat" where
  "dict_len d = length (dict_items d)"

subsection \<open>Data\<close>

record servidor =
  s_id :: int
  capacidade :: int

record requisicao =
  r_id :: int
  prioridade :: int
  tempo_exec :: rat

record config =
  quantum :: rat
  servidores :: "servidor list"
  requisicoes :: "requisicao list"

text \<open>A pending task: the request's fields and the five the loop adds (lines 30-36).\<close>

record task =
  t_id :: int
  t_prioridade :: int
  t_tempo_exec :: rat
  arrival_time :: rat
  remaining :: rat
  running :: bool
  last_worker :: "int option"

text \<open>One entry of \<open>estados\<close> (line 40).\<close>

record estado =
  cap :: int
  load :: int
  busy :: rat

text \<open>One entry of \<open>completed\<close> (line 83); \<open>c_end = None\<close> is Python's \<open>None\<close>.\<close>

record registro =
  c_arrival :: rat
  c_end :: "rat option"

text \<open>
  The message of lines 85-94. The keys \<open>slice\<close> and \<open>exec_time\<close> are optional:
  \<open>None\<close> says that the key is absent from the message.
\<close>

record msg =
  m_id :: int
  m_priority :: int
  m_remaining :: rat
  m_slice :: "rat option"
  m_exec_time :: "rat option"

text \<open>A response of a worker, as lines 130-155 read it.\<close>

record resposta =
  worker :: int
  rp_id :: int
  duration :: rat
  rp_remaining :: rat
  cpu :: rat
  memory :: rat

text \<open>
  The four kinds of line the loop prints, with the values the line is formatted from:
  elapsed time, task, priority, servers, policy (lines 102-114), and elapsed time,
  server, task, remaining time, CPU and memory (lines 147-156).
\<close>

datatype evento =
    Migracao rat int int int int string
  | Atribuicao rat int int int string
  | Conclusao rat int int rat rat
  | Preempcao rat int int rat rat rat

text \<open>
  The state of one run. Python's task dictionaries are objects shared by \<open>pending\<close> and
  \<open>elegiveis\<close>: \<open>heap\<close> holds the objects, and both lists hold addresses (indices into
  \<open>heap\<close>). \<open>filas\<close> records what was put on the servers' queues, in order, each message
  with the server whose queue received it; \<open>saida\<close> records the events printed.
\<close>

record state =
  heap :: "task list"
  pending :: "nat list"
  estados :: "(int, estado) dict"
  completed :: "(int, registro) dict"
  filas :: "(int \<times> msg) list"
  saida :: "evento list"

text \<open>
  The scheduler object (class \<open>Scheduler\<close>, not in the sources). \<open>reorder\<close> rearranges the
  list of eligible tasks in place, \<open>next_task\<close> returns a task and leaves the list as it
  should be for the next call; both may read the task objects.
\<close>

record escalonador =
  reorder :: "task list \<Rightarrow> nat list \<Rightarrow> nat list"
  next_task :: "task list \<Rightarrow> nat list \<Rightarrow> nat \<times> nat list"

subsection \<open>Start of a run (lines 25-44)\<close>

definition nova_tarefa :: "rat \<Rightarrow> requisicao \<Rightarrow> task" where
  "nova_tarefa start r =
     \<lparr>t_id = r_id r, t_prioridade = prioridade r, t_tempo_exec = tempo_exec r,
      arrival_time = start, remaining = tempo_exec r, running = False,
      last_worker = None\<rparr>"

definition estados_iniciais :: "servidor list \<Rightarrow> (int, estado) dict" where
  "estados_iniciais svs =
     foldl (\<lambda>d sv. dict_set d (s_id sv) \<lparr>cap = capacidade sv, load = 0, busy = 0\<rparr>)
       dict_empty svs"

definition estado_inicial :: "rat \<Rightarrow> config \<Rightarrow> state" where
  "estado_inicial start cfg =
     \<lparr>heap = map (nova_tarefa start) (requisicoes cfg),
      pending = [0..<length (requisicoes cfg)],
      estados = estados_iniciais (servidores cfg),
      completed = dict_empty,
      filas = [],
      saida = []\<rparr>"

subsection \<open>Eligible tasks and free servers (lines 51 and 55)\<close>

definition elegiveis_de :: "state \<Rightarrow> nat list" where
  "elegiveis_de s =
     filter (\<lambda>a. \<not> running (heap s ! a) \<and> remaining (heap s ! a) > 0) (pending s)"

definition livres_de :: "(int, estado) dict \<Rightarrow> int list" where
  "livres_de E = map fst (filter (\<lambda>(sid, st). load st < cap st) (dict_items E))"

subsection \<open>Choice of the server (lines 66-77)\<close>

definition load_de :: "(int, estado) dict \<Rightarrow> int \<Rightarrow> error + int" where
  "load_de E x = (case tab E x of None \<Rightarrow> Inl KeyError | Some st \<Rightarrow> Inr (load st))"

text \<open>
  Python's \<open>min(xs, key=lambda x: estados[x]["load"])\<close>: the keys are computed from left
  to right, the first element whose key is minimal is returned, and an empty list raises
  \<open>ValueError\<close>.
\<close>

fun py_min_aux :: "(int, estado) dict \<Rightarrow> int list \<Rightarrow> int \<Rightarrow> int \<Rightarrow> error + int" where
  "py_min_aux E [] best bl = Inr best"
| "py_min_aux E (y # ys) best bl =
     (case load_de E y of
        Inl e \<Rightarrow> Inl e
      | Inr l \<Rightarrow> if l < bl then py_min_aux E ys y l else py_min_aux E ys best bl)"

fun py_min :: "(int, estado) dict \<Rightarrow> int list \<Rightarrow> error + int" where
  "py_min E [] = Inl ValueError"
| "py_min E (x # xs) =
     (case load_de E x of Inl e \<Rightarrow> Inl e | Inr l \<Rightarrow> py_min_aux E xs x l)"

definition escolher_servidor :: "(int, estado) dict \<Rightarrow> int list \<Rightarrow> task \<Rightarrow> error + int" where
  "escolher_servidor E livres t =
     (case last_worker t of
        Some w \<Rightarrow>
          (let candidatos = filter (\<lambda>sid. sid \<noteq> w) livres
           in if candidatos \<noteq> [] then py_min E candidatos else py_min E livres)
      | None \<Rightarrow> py_min E livres)"

subsection \<open>The message (lines 85-94) and the event (lines 100-114)\<close>

definition construir_msg :: "string \<Rightarrow> rat \<Rightarrow> task \<Rightarrow> msg" where
  "construir_msg policy q t =
     (let m = \<lparr>m_id = t_id t, m_priority = t_prioridade t, m_remaining = remaining t,
               m_slice = None, m_exec_time = None\<rparr>
      in if policy = ''rr'' then m\<lparr>m_slice := Some (min q (remaining t))\<rparr>
         else m\<lparr>m_exec_time := Some (remaining t)\<rparr>)"

definition evento_atribuicao :: "string \<Rightarrow> rat \<Rightarrow> task \<Rightarrow> int \<Rightarrow> evento" where
  "evento_atribuicao policy elapsed t sid =
     (case last_worker t of
        Some w \<Rightarrow>
          if w \<noteq> sid then Migracao elapsed (t_id t) (t_prioridade t) w sid policy
          else Atribuicao elapsed (t_id t) (t_prioridade t) sid policy
      | None \<Rightarrow> Atribuicao elapsed (t_id t) (t_prioridade t) sid policy)"

subsection \<open>One assignment (lines 61-120)\<close>

text \<open>
  One pass through the body of \<open>while elegiveis and livres\<close>. The list \<open>livres\<close> is
  computed by the same expression before the loop (line 55) and at the end of every pass
  (line 120), with no change of \<open>estados\<close> in between, so at the head of each pass it is
  \<open>livres_de (estados s)\<close>; the model computes it there. The result is the list of
  eligible tasks the scheduler leaves and the new state. A scheduler that returns
  something that is not one of the task objects is outside the model
  (\<open>SchedulerContract\<close>).
\<close>

definition atribuir ::
  "escalonador \<Rightarrow> string \<Rightarrow> rat \<Rightarrow> rat \<Rightarrow> nat list \<Rightarrow> state \<Rightarrow> error + (nat list \<times> state)" where
  "atribuir sched policy q elapsed elegiveis s =
     (let livres = livres_de (estados s);
          (a, elegiveis') = next_task sched (heap s) elegiveis
      in if length (heap s) \<le> a then Inl SchedulerContract
         else
           let t = heap s ! a
           in case escolher_servidor (estados s) livres t of
                Inl e \<Rightarrow> Inl e
              | Inr sid \<Rightarrow>
                  let t1 = t\<lparr>running := True\<rparr>;
                      completed' =
                        (if tab (completed s) (t_id t1) \<noteq> None then completed s
                         else dict_set (completed s) (t_id t1)
                                \<lparr>c_arrival = arrival_time t1, c_end = None\<rparr>);
                      m = construir_msg policy q t1
                  in case tab (estados s) sid of
                       None \<Rightarrow> Inl KeyError
                     | Some st \<Rightarrow>
                         Inr (elegiveis',
                              s\<lparr>heap := (heap s)[a := t1\<lparr>last_worker := Some sid\<rparr>],
                                estados := dict_set (estados s) sid (st\<lparr>load := load st + 1\<rparr>),
                                completed := completed',
                                filas := filas s @ [(sid, m)],
                                saida := saida s @ [evento_atribuicao policy elapsed t1 sid]\<rparr>))"

subsection \<open>One response (lines 130-156)\<close>

text \<open>The \<open>for p in pending\<close> of lines 138-142: the first task with the id is updated.\<close>

fun atualizar_tarefa :: "resposta \<Rightarrow> nat list \<Rightarrow> task list \<Rightarrow> task list" where
  "atualizar_tarefa resp [] h = h"
| "atualizar_tarefa resp (p # ps) h =
     (if t_id (h ! p) = rp_id resp
      then h[p := (h ! p)\<lparr>remaining := rp_remaining resp, running := False\<rparr>]
      else atualizar_tarefa resp ps h)"

definition processar_resposta :: "rat \<Rightarrow> rat \<Rightarrow> resposta \<Rightarrow> state \<Rightarrow> error + state" where
  "processar_resposta start now2 resp s =
     (let sid = worker resp
      in case tab (estados s) sid of
           None \<Rightarrow> Inl KeyError
         | Some st \<Rightarrow>
             let estados' = dict_set (estados s) sid
                              (st\<lparr>busy := busy st + duration resp, load := load st - 1\<rparr>);
                 elapsed2 = now2 - start;
                 heap' = atualizar_tarefa resp (pending s) (heap s)
             in if rp_remaining resp = 0
                then (case tab (completed s) (rp_id resp) of
                        None \<Rightarrow> Inl KeyError
                      | Some c \<Rightarrow>
                          Inr (s\<lparr>heap := heap',
                                 estados := estados',
                                 completed := dict_set (completed s) (rp_id resp)
                                                (c\<lparr>c_end := Some now2\<rparr>),
                                 pending := filter (\<lambda>p. t_id (heap' ! p) \<noteq> rp_id resp) (pending s),
                                 saida := saida s @
                                   [Conclusao elapsed2 sid (rp_id resp) (cpu resp) (memory resp)]\<rparr>))
                else Inr (s\<lparr>heap := heap',
                            estados := estados',
                            saida := saida s @
                              [Preempcao elapsed2 sid (rp_id resp) (rp_remaining resp)
                                 (cpu resp) (memory resp)]\<rparr>))"

subsection \<open>The stopping condition (line 159)\<close>

definition condicao_parada :: "state \<Rightarrow> bool" where
  "condicao_parada s = list_all (\<lambda>a. remaining (heap s ! a) = 0) (pending s)"

subsection \<open>The assignment loop (lines 60-120)\<close>

text \<open>
  Every pass gives one more task to a server that has room, so the room left on the
  servers decreases: the loop ends whatever the scheduler does.
\<close>

definition folga :: "(int, estado) dict \<Rightarrow> nat" where
  "folga E =
     (\<Sum>k\<in>set (chaves E). case tab E k of None \<Rightarrow> 0 | Some st \<Rightarrow> nat (cap st - load st))"

lemma py_min_aux_mem: "py_min_aux E ys best bl = Inr m \<Longrightarrow> m = best \<or> m \<in> set ys"
  by (induction ys arbitrary: best bl) (auto split: sum.splits if_splits)

lemma py_min_mem: "py_min E xs = Inr m \<Longrightarrow> m \<in> set xs"
  by (cases xs) (auto split: sum.splits dest: py_min_aux_mem)

lemma escolher_servidor_mem: "escolher_servidor E livres t = Inr sid \<Longrightarrow> sid \<in> set livres"
  by (auto simp: escolher_servidor_def Let_def split: option.splits if_splits
      dest!: py_min_mem)

lemma dict_items_iff:
  "(k, v) \<in> set (dict_items d) \<longleftrightarrow> k \<in> set (chaves d) \<and> tab d k = Some v"
  by (induction "chaves d" arbitrary: d)
    (auto simp: dict_items_def List.map_filter_def image_iff)

lemma livres_de_iff:
  "sid \<in> set (livres_de E) \<longleftrightarrow>
     sid \<in> set (chaves E) \<and> (\<exists>st. tab E sid = Some st \<and> load st < cap st)"
  by (auto simp: livres_de_def dict_items_iff image_iff)

lemma folga_dict_set:
  assumes "k \<in> set (chaves E)" and "tab E k = Some st" and "load st < cap st"
  shows "folga (dict_set E k (st\<lparr>load := load st + 1\<rparr>)) < folga E"
proof -
  let ?f = "\<lambda>T k. case T k of None \<Rightarrow> 0 | Some st \<Rightarrow> nat (cap st - load st)"
  let ?T' = "(tab E)(k := Some (st\<lparr>load := load st + 1\<rparr>))"
  have fin: "finite (set (chaves E))" by simp
  have rest: "(\<Sum>x\<in>set (chaves E) - {k}. ?f ?T' x) = (\<Sum>x\<in>set (chaves E) - {k}. ?f (tab E) x)"
    by (rule sum.cong) auto
  have a: "folga E = ?f (tab E) k + (\<Sum>x\<in>set (chaves E) - {k}. ?f (tab E) x)"
    unfolding folga_def using sum.remove [OF fin assms(1)] by blast
  have b: "folga (dict_set E k (st\<lparr>load := load st + 1\<rparr>)) =
             ?f ?T' k + (\<Sum>x\<in>set (chaves E) - {k}. ?f ?T' x)"
    unfolding folga_def dict_set_def using assms(1) sum.remove [OF fin assms(1), of "?f ?T'"]
    by simp
  have c: "?f ?T' k < ?f (tab E) k"
    using assms(2,3) by simp
  show ?thesis
    using a b c rest by linarith
qed

lemma atribuir_folga:
  assumes "atribuir sched policy q elapsed els s = Inr (els', s')"
  shows "folga (estados s') < folga (estados s)"
proof -
  obtain a r where nt: "next_task sched (heap s) els = (a, r)"
    by (cases "next_task sched (heap s) els")
  from assms nt obtain sid st where
    ch: "escolher_servidor (estados s) (livres_de (estados s)) (heap s ! a) = Inr sid"
    and tb: "tab (estados s) sid = Some st"
    and es: "estados s' = dict_set (estados s) sid (st\<lparr>load := load st + 1\<rparr>)"
    by (auto simp: atribuir_def Let_def split: if_splits sum.splits option.splits)
  from ch have "sid \<in> set (livres_de (estados s))"
    by (rule escolher_servidor_mem)
  with tb have "sid \<in> set (chaves (estados s))" and "load st < cap st"
    by (auto simp: livres_de_iff)
  with tb es show ?thesis
    by (simp add: folga_dict_set)
qed

function atribuir_loop ::
  "escalonador \<Rightarrow> string \<Rightarrow> rat \<Rightarrow> rat \<Rightarrow> nat list \<Rightarrow> state \<Rightarrow> error + state" where
  "atribuir_loop sched policy q elapsed elegiveis s =
     (if elegiveis \<noteq> [] \<and> livres_de (estados s) \<noteq> []
      then (case atribuir sched policy q elapsed elegiveis s of
              Inl e \<Rightarrow> Inl e
            | Inr (elegiveis', s') \<Rightarrow> atribuir_loop sched policy q elapsed elegiveis' s')
      else Inr s)"
  by pat_completeness auto
termination
  by (relation "measure (\<lambda>(sched, policy, q, elapsed, elegiveis, s). folga (estados s))")
    (auto dest: atribuir_folga)

subsection \<open>Draining the responses (lines 125-156)\<close>

text \<open>
  The responses that \<open>receber_resposta\<close> finds on the return queue during one drain, each
  with the clock reading of line 134. The drain ends when the queue is empty.
\<close>

fun drenar :: "rat \<Rightarrow> (rat \<times> resposta) list \<Rightarrow> state \<Rightarrow> error + state" where
  "drenar start [] s = Inr s"
| "drenar start ((now2, resp) # rest) s =
     (case processar_resposta start now2 resp s of
        Inl e \<Rightarrow> Inl e
      | Inr s' \<Rightarrow> drenar start rest s')"

subsection \<open>The cycle (lines 46-162)\<close>

text \<open>
  What one cycle reads from outside: the clock at line 47 and the responses it drains.
  The run is given the cycles' readings as a list; when the list is used up and the
  stopping condition has not held, the run has not returned (\<open>None\<close>).
\<close>

record tique =
  agora :: rat
  respostas :: "(rat \<times> resposta) list"

fun ciclos ::
  "escalonador \<Rightarrow> string \<Rightarrow> rat \<Rightarrow> rat \<Rightarrow> tique list \<Rightarrow> state \<Rightarrow> (error + state) option" where
  "ciclos sched policy q start [] s = None"
| "ciclos sched policy q start (tq # tqs) s =
     (let elapsed = agora tq - start;
          elegiveis = reorder sched (heap s) (elegiveis_de s)
      in case atribuir_loop sched policy q elapsed elegiveis s of
           Inl e \<Rightarrow> Some (Inl e)
         | Inr s1 \<Rightarrow>
             (case drenar start (respostas tq) s1 of
                Inl e \<Rightarrow> Some (Inl e)
              | Inr s2 \<Rightarrow>
                  if condicao_parada s2 then Some (Inr s2)
                  else ciclos sched policy q start tqs s2))"

subsection \<open>The metrics (lines 167-172) and the run\<close>

record resultado =
  tempo_medio :: rat
  throughput :: rat
  utilizacao :: rat

definition py_div :: "rat \<Rightarrow> rat \<Rightarrow> error + rat" where
  "py_div a b = (if b = 0 then Inl ZeroDivisionError else Inr (a / b))"

text \<open>Line 169: \<open>None - arrival\<close> raises \<open>TypeError\<close>.\<close>

fun tempos_de :: "registro list \<Rightarrow> error + rat list" where
  "tempos_de [] = Inr []"
| "tempos_de (c # cs) =
     (case c_end c of
        None \<Rightarrow> Inl TypeError
      | Some e \<Rightarrow>
          (case tempos_de cs of
             Inl er \<Rightarrow> Inl er
           | Inr ts \<Rightarrow> Inr ((e - c_arrival c) # ts)))"

text \<open>The sum of line 172, over the servers in the order of \<open>estados\<close>.\<close>

fun soma_util :: "rat \<Rightarrow> estado list \<Rightarrow> error + rat" where
  "soma_util tot [] = Inr 0"
| "soma_util tot (st # sts) =
     (case py_div (busy st) tot of
        Inl e \<Rightarrow> Inl e
      | Inr x \<Rightarrow>
          (case soma_util tot sts of
             Inl e \<Rightarrow> Inl e
           | Inr acc \<Rightarrow> Inr (x * 100 + acc)))"

definition metricas :: "state \<Rightarrow> rat \<Rightarrow> error + resultado" where
  "metricas s tot =
     (case tempos_de (dict_values (completed s)) of
        Inl e \<Rightarrow> Inl e
      | Inr tempos \<Rightarrow>
     (case py_div (sum_list tempos) (of_nat (length tempos)) of
        Inl e \<Rightarrow> Inl e
      | Inr avg \<Rightarrow>
     (case py_div (of_nat (dict_len (completed s))) tot of
        Inl e \<Rightarrow> Inl e
      | Inr thr \<Rightarrow>
     (case soma_util tot (dict_values (estados s)) of
        Inl e \<Rightarrow> Inl e
      | Inr su \<Rightarrow>
     (case py_div su (of_nat (dict_len (estados s))) of
        Inl e \<Rightarrow> Inl e
      | Inr util \<Rightarrow>
          Inr \<lparr>tempo_medio = avg, throughput = thr, utilizacao = util\<rparr>)))))"

text \<open>
  The run of one policy. \<open>Scheduler\<close> builds the scheduler object from the policy name
  (line 43); \<open>start\<close> and \<open>fim\<close> are the clock readings of lines 25 and 167. The banner
  lines and the final \<open>EXIT\<close> messages are left out.
\<close>

definition executar_politica ::
  "(string \<Rightarrow> escalonador) \<Rightarrow> string \<Rightarrow> config \<Rightarrow> rat \<Rightarrow> tique list \<Rightarrow> rat \<Rightarrow>
     (error + resultado) option" where
  "executar_politica Sched policy cfg start tiques fim =
     (case ciclos (Sched policy) policy (quantum cfg) start tiques (estado_inicial start cfg) of
        None \<Rightarrow> None
      | Some (Inl e) \<Rightarrow> Some (Inl e)
      | Some (Inr s) \<Rightarrow> Some (metricas s (fim - start)))"

subsection \<open>The scheduler of the specification\<close>

text \<open>
  Modelled from the spec: the class \<open>Scheduler\<close> of the module \<open>scheduler\<close>, which is not
  in the sources. Round-robin keeps the order and the other two policies sort, ascending
  and stably, by remaining time and by priority; \<open>next_task\<close> takes the head of the list
  and removes it.
\<close>

definition Scheduler :: "string \<Rightarrow> escalonador" where
  "Scheduler policy =
     \<lparr>reorder = (\<lambda>h els.
        if policy = ''sjf'' then sort_key (\<lambda>a. remaining (h ! a)) els
        else if policy = ''prioridade'' then sort_key (\<lambda>a. t_prioridade (h ! a)) els
        else els),
      next_task = (\<lambda>h els. case els of [] \<Rightarrow> (0, []) | a # r \<Rightarrow> (a, r))\<rparr>"

text \<open>
  What the loop expects of a scheduler: \<open>reorder\<close> permutes the list, and \<open>next_task\<close>
  on a list that is not empty returns one of its tasks and takes it off the list.
\<close>

definition contrato :: "escalonador \<Rightarrow> bool" where
  "contrato sched \<longleftrightarrow>
     (\<forall>h els. mset (reorder sched h els) = mset els) \<and>
     (\<forall>h els a r. els \<noteq> [] \<longrightarrow> next_task sched h els = (a, r) \<longrightarrow>
        mset els = add_mset a (mset r))"

subsection \<open>The states the loop goes through\<close>

text \<open>
  The states of a run, with the list of eligible tasks the assignment loop holds and the
  responses drained so far (server and task of each). A cycle starts by computing the
  eligible tasks; an assignment needs an eligible task and a free server; a response is
  drained when it answers a message that was sent and not yet answered.
\<close>

definition enviadas :: "state \<Rightarrow> (int \<times> int) list" where
  "enviadas s = map (\<lambda>(sid, m). (sid, m_id m)) (filas s)"

inductive alcancavel ::
  "escalonador \<Rightarrow> string \<Rightarrow> config \<Rightarrow> rat \<Rightarrow> nat list \<Rightarrow> state \<Rightarrow> (int \<times> int) list \<Rightarrow> bool"
  for sched :: escalonador and policy :: string and cfg :: config and start :: rat where
  inicio: "alcancavel sched policy cfg start [] (estado_inicial start cfg) []"
| ciclo: "alcancavel sched policy cfg start els s rs \<Longrightarrow>
          alcancavel sched policy cfg start (reorder sched (heap s) (elegiveis_de s)) s rs"
| atrib: "alcancavel sched policy cfg start els s rs \<Longrightarrow>
          els \<noteq> [] \<Longrightarrow> livres_de (estados s) \<noteq> [] \<Longrightarrow>
          atribuir sched policy (quantum cfg) elapsed els s = Inr (els', s') \<Longrightarrow>
          alcancavel sched policy cfg start els' s' rs"
| dreno: "alcancavel sched policy cfg start els s rs \<Longrightarrow>
          add_mset (worker resp, rp_id resp) (mset rs) \<subseteq># mset (enviadas s) \<Longrightarrow>
          processar_resposta start now2 resp s = Inr s' \<Longrightarrow>
          alcancavel sched policy cfg start els s' ((worker resp, rp_id resp) # rs)"

subsection \<open>A small configuration\<close>

text \<open>
  Two servers of capacity 1, listed with the larger id first, and one request of 5 time
  units; the examples below run on it.
\<close>

definition cfg_ex :: config where
  "cfg_ex = \<lparr>quantum = 2,
     servidores = [\<lparr>s_id = 2, capacidade = 1\<rparr>, \<lparr>s_id = 1, capacidade = 1\<rparr>],
     requisicoes = [\<lparr>r_id = 7, prioridade = 1, tempo_exec = 5\<rparr>]\<rparr>"

text \<open>The same configuration when its task comes back after a slice on server 2.\<close>

definition s_mig :: state where
  "s_mig = (estado_inicial 0 cfg_ex)
     \<lparr>heap := [(nova_tarefa 0 \<lparr>r_id = 7, prioridade = 1, tempo_exec = 5\<rparr>)
                 \<lparr>remaining := 3, last_worker := Some 2\<rparr>]\<rparr>"

subsection \<open>The least-loaded server, as a property\<close>

text \<open>
  \<open>primeiro_minimo E xs m\<close>: \<open>m\<close> is in \<open>xs\<close>, no element of \<open>xs\<close> has a smaller load, and
  every element before \<open>m\<close> has a larger one.
\<close>

definition carga :: "(int, estado) dict \<Rightarrow> int \<Rightarrow> int" where
  "carga E x = (case tab E x of None \<Rightarrow> 0 | Some st \<Rightarrow> load st)"

definition primeiro_minimo :: "(int, estado) dict \<Rightarrow> int list \<Rightarrow> int \<Rightarrow> bool" where
  "primeiro_minimo E xs m \<longleftrightarrow>
     (\<exists>pre pos. xs = pre @ m # pos \<and>
        (\<forall>y\<in>set pre. carga E m < carga E y) \<and> (\<forall>y\<in>set pos. carga E m \<le> carga E y))"

text \<open>
  The state after the first assignment of a round-robin run on that configuration, and
  a response of server \<open>w\<close> for task \<open>i\<close> that leaves \<open>r\<close> time units.
\<close>

definition s_run :: state where
  "s_run = (case atribuir (Scheduler ''rr'') ''rr'' 2 0 [0] (estado_inicial 0 cfg_ex) of
              Inl e \<Rightarrow> estado_inicial 0 cfg_ex
            | Inr (els, s) \<Rightarrow> s)"

definition resp_ex :: "int \<Rightarrow> int \<Rightarrow> rat \<Rightarrow> resposta" where
  "resp_ex w i r = \<lparr>worker = w, rp_id = i, duration = 2, rp_remaining = r, cpu = 50, memory = 10\<rparr>"

text \<open>
  The end of a run in which the one task, arrived at time 0, completed at time 4, and
  server 2 was busy for 4 time units.
\<close>

definition s_fim :: state where
  "s_fim = (estado_inicial 0 cfg_ex)
     \<lparr>estados := dict_set (estados_iniciais (servidores cfg_ex)) 2 \<lparr>cap = 1, load = 0, busy = 4\<rparr>,
      completed := dict_set dict_empty 7 \<lparr>c_arrival = 0, c_end = Some 4\<rparr>\<rparr>"

subsection \<open>Invariants of the loop\<close>

text \<open>Every pending task is a task object with work left.\<close>

definition inv_restante :: "state \<Rightarrow> bool" where
  "inv_restante s \<longleftrightarrow>
     (\<forall>p\<in>set (pending s). p < length (heap s) \<and> remaining (heap s ! p) \<noteq> 0)"

text \<open>
  The load of a server is the number of messages sent to it minus the number of its
  responses drained, and it does not exceed the capacity.
\<close>

definition do_servidor :: "int \<Rightarrow> (int \<times> int) list \<Rightarrow> nat" where
  "do_servidor w xs = length (filter (\<lambda>x. fst x = w) xs)"

definition inv_carga :: "state \<Rightarrow> (int \<times> int) list \<Rightarrow> bool" where
  "inv_carga s rs \<longleftrightarrow>
     mset rs \<subseteq># mset (enviadas s) \<and>
     (\<forall>w st. tab (estados s) w = Some st \<longrightarrow>
        load st = int (do_servidor w (enviadas s)) - int (do_servidor w rs) \<and>
        load st \<le> cap st)"

text \<open>
  A task has one message awaiting its response when it is running and none otherwise;
  \<open>da_tarefa i xs\<close> counts the entries of task \<open>i\<close>. The tasks the assignment loop still
  holds as eligible are pending and not running.
\<close>

definition da_tarefa :: "int \<Rightarrow> (int \<times> int) list \<Rightarrow> nat" where
  "da_tarefa i xs = length (filter (\<lambda>x. snd x = i) xs)"

definition inv_exclusao :: "state \<Rightarrow> nat list \<Rightarrow> (int \<times> int) list \<Rightarrow> bool" where
  "inv_exclusao s els rs \<longleftrightarrow>
     distinct (map t_id (heap s)) \<and>
     distinct (pending s) \<and>
     (\<forall>p\<in>set (pending s). p < length (heap s)) \<and>
     (\<forall>a<length (heap s). running (heap s ! a) \<longrightarrow> a \<in> set (pending s)) \<and>
     (\<forall>a<length (heap s).
        da_tarefa (t_id (heap s ! a)) (enviadas s) =
          da_tarefa (t_id (heap s ! a)) rs + (if running (heap s ! a) then 1 else 0)) \<and>
     (\<forall>x\<in>set (enviadas s). snd x \<in> t_id ` set (heap s)) \<and>
     mset rs \<subseteq># mset (enviadas s) \<and>
     distinct els \<and>
     (\<forall>a\<in>set els. a \<in> set (pending s) \<and> \<not> running (heap s ! a))"

text \<open>The server and the task of a response taken from the return queue.\<close>

definition chave :: "rat \<times> resposta \<Rightarrow> int \<times> int" where
  "chave x = (worker (snd x), rp_id (snd x))"

subsection \<open>The states of a run, whatever the responses\<close>

text \<open>
  The same steps as in \<open>alcancavel\<close>, with nothing asked of the responses: the initial
  state, any assignment that ends normally and any response that is processed normally.
  Every state of \<open>alcancavel\<close> is one of these.
\<close>

inductive percorre :: "escalonador \<Rightarrow> string \<Rightarrow> config \<Rightarrow> rat \<Rightarrow> state \<Rightarrow> bool"
  for sched :: escalonador and policy :: string and cfg :: config and start :: rat where
  p_inicio: "percorre sched policy cfg start (estado_inicial start cfg)"
| p_atrib: "percorre sched policy cfg start s \<Longrightarrow>
            atribuir sched policy (quantum cfg) elapsed els s = Inr (els', s') \<Longrightarrow>
            percorre sched policy cfg start s'"
| p_dreno: "percorre sched policy cfg start s \<Longrightarrow>
            processar_resposta start now2 resp s = Inr s' \<Longrightarrow>
            percorre sched policy cfg start s'"

text \<open>
  The task objects keep the ids of the requests and the pending addresses are task
  objects; every message sent went to a server of \<open>estados\<close> for a task that has a
  completion record.
\<close>

definition inv_ids :: "config \<Rightarrow> state \<Rightarrow> bool" where
  "inv_ids cfg s \<longleftrightarrow>
     map t_id (heap s) = map r_id (requisicoes cfg) \<and>
     (\<forall>p\<in>set (pending s). p < length (heap s))"

definition inv_reg :: "state \<Rightarrow> bool" where
  "inv_reg s \<longleftrightarrow>
     (\<forall>x\<in>set (enviadas s).
        tab (estados s) (fst x) \<noteq> None \<and> tab (completed s) (snd x) \<noteq> None)"

text \<open>
  A cycle of the round-robin run on the small configuration that drains one response of
  server 2 for task 7, with \<open>r\<close> time units left, and the state after that drain.
\<close>

definition tq_ex :: "rat \<Rightarrow> tique" where
  "tq_ex r = \<lparr>agora = 0, respostas = [(4, resp_ex 2 7 r)]\<rparr>"

definition apos :: "rat \<Rightarrow> state" where
  "apos r = (case drenar 0 (respostas (tq_ex r)) s_run of Inl e \<Rightarrow> s_run | Inr s \<Rightarrow> s)"

text \<open>
  Three idle servers listed as 3, 2, 1, and the task coming back after a slice on
  server 3.
\<close>

definition cfg_ex3 :: config where
  "cfg_ex3 = cfg_ex\<lparr>servidores :=
     [\<lparr>s_id = 3, capacidade = 1\<rparr>, \<lparr>s_id = 2, capacidade = 1\<rparr>, \<lparr>s_id = 1, capacidade = 1\<rparr>]\<rparr>"

definition s_mig3 :: state where
  "s_mig3 = (estado_inicial 0 cfg_ex3)
     \<lparr>heap := [(nova_tarefa 0 \<lparr>r_id = 7, prioridade = 1, tempo_exec = 5\<rparr>)
                 \<lparr>remaining := 3, last_worker := Some 3\<rparr>]\<rparr>"

section \<open>Properties of one assignment\<close>

lemmas ex_defs = cfg_ex_def estado_inicial_def estados_iniciais_def dict_set_def dict_empty_def
  nova_tarefa_def livres_de_def dict_items_def Scheduler_def atribuir_def escolher_servidor_def
  load_de_def construir_msg_def evento_atribuicao_def Let_def

text \<open>What a successful assignment did, field by field.\<close>

lemma atribuir_InrE:
  assumes "atribuir sched policy q elapsed els s = Inr (els', s')"
  obtains a sid st where
    "next_task sched (heap s) els = (a, els')"
    "a < length (heap s)"
    "escolher_servidor (estados s) (livres_de (estados s)) (heap s ! a) = Inr sid"
    "tab (estados s) sid = Some st"
    "heap s' = (heap s)[a := (heap s ! a)\<lparr>running := True, last_worker := Some sid\<rparr>]"
    "pending s' = pending s"
    "estados s' = dict_set (estados s) sid (st\<lparr>load := load st + 1\<rparr>)"
    "filas s' = filas s @ [(sid, construir_msg policy q ((heap s ! a)\<lparr>running := True\<rparr>))]"
    "saida s' = saida s @ [evento_atribuicao policy elapsed ((heap s ! a)\<lparr>running := True\<rparr>) sid]"
    "completed s' =
       (if tab (completed s) (t_id (heap s ! a)) \<noteq> None then completed s
        else dict_set (completed s) (t_id (heap s ! a))
               \<lparr>c_arrival = arrival_time (heap s ! a), c_end = None\<rparr>)"
proof -
  obtain a r where nt: "next_task sched (heap s) els = (a, r)"
    by (cases "next_task sched (heap s) els")
  with assms have len: "a < length (heap s)"
    by (auto simp: atribuir_def Let_def split: if_splits)
  from assms nt len obtain sid where
    ch: "escolher_servidor (estados s) (livres_de (estados s)) (heap s ! a) = Inr sid"
    by (auto simp: atribuir_def Let_def split: sum.splits)
  from assms nt len ch obtain st where tb: "tab (estados s) sid = Some st"
    by (auto simp: atribuir_def Let_def split: option.splits)
  from assms nt len ch tb have r: "r = els'"
    by (simp add: atribuir_def Let_def)
  from assms nt len ch tb have s':
    "s' = s\<lparr>heap := (heap s)[a := (heap s ! a)\<lparr>running := True, last_worker := Some sid\<rparr>],
       estados := dict_set (estados s) sid (st\<lparr>load := load st + 1\<rparr>),
       completed := (if tab (completed s) (t_id (heap s ! a)) \<noteq> None then completed s
        else dict_set (completed s) (t_id (heap s ! a))
               \<lparr>c_arrival = arrival_time (heap s ! a), c_end = None\<rparr>),
       filas := filas s @ [(sid, construir_msg policy q ((heap s ! a)\<lparr>running := True\<rparr>))],
       saida := saida s @ [evento_atribuicao policy elapsed ((heap s ! a)\<lparr>running := True\<rparr>) sid]\<rparr>"
    by (auto simp: atribuir_def Let_def)
  show thesis
    by (rule that [OF _ len ch tb]) (simp_all add: nt r s')
qed

text \<open>
  Claim C6. The message of an assignment carries exactly one of \<open>slice\<close> and \<open>exec_time\<close>:
  under the policy \<open>rr\<close> it has \<open>slice = min(quantum, remaining)\<close> and no \<open>exec_time\<close>,
  under any other policy it has \<open>exec_time = remaining\<close> and no \<open>slice\<close>.
\<close>

theorem mensagem_de_despacho:
  assumes "atribuir sched policy q elapsed els s = Inr (els', s')"
    and "next_task sched (heap s) els = (a, r)"
  shows "\<exists>sid m. filas s' = filas s @ [(sid, m)] \<and>
           m_id m = t_id (heap s ! a) \<and> m_priority m = t_prioridade (heap s ! a) \<and>
           m_remaining m = remaining (heap s ! a) \<and>
           (if policy = ''rr''
            then m_slice m = Some (min q (remaining (heap s ! a))) \<and> m_exec_time m = None
            else m_exec_time m = Some (remaining (heap s ! a)) \<and> m_slice m = None)"
  using assms by (elim atribuir_InrE) (simp add: construir_msg_def Let_def)

theorem mensagem_de_despacho_witness:
  "\<exists>els' s'. atribuir (Scheduler ''rr'') ''rr'' 2 0 [0] (estado_inicial 0 cfg_ex) = Inr (els', s') \<and>
     (\<exists>sid m. filas s' = [(sid, m)] \<and> m_slice m = Some 2 \<and> m_exec_time m = None)"
proof -
  obtain els' s' where
    eq: "atribuir (Scheduler ''rr'') ''rr'' 2 0 [0] (estado_inicial 0 cfg_ex) = Inr (els', s')"
    by (simp add: ex_defs)
  have nt: "next_task (Scheduler ''rr'') (heap (estado_inicial 0 cfg_ex)) [0] = (0, [])"
    by (simp add: Scheduler_def)
  from mensagem_de_despacho [OF eq nt] have
    "\<exists>sid m. filas s' = [(sid, m)] \<and> m_id m = 7 \<and> m_priority m = 1 \<and> m_remaining m = 5 \<and>
       m_slice m = Some 2 \<and> m_exec_time m = None"
    by (simp add: ex_defs)
  then have "\<exists>sid m. filas s' = [(sid, m)] \<and> m_slice m = Some 2 \<and> m_exec_time m = None"
    by blast
  with eq show ?thesis by blast
qed

text \<open>
  Claim C2. An assignment prints a migration line exactly when the task's \<open>last_worker\<close>
  was set and differs from the server chosen, and an assignment line in every other case;
  afterwards \<open>last_worker\<close> is the server chosen.
\<close>

theorem evento_de_atribuicao:
  assumes "atribuir sched policy q elapsed els s = Inr (els', s')"
    and "next_task sched (heap s) els = (a, r)"
  shows "\<exists>sid m. filas s' = filas s @ [(sid, m)] \<and>
           last_worker (heap s' ! a) = Some sid \<and>
           saida s' = saida s @
             [if last_worker (heap s ! a) \<noteq> None \<and> last_worker (heap s ! a) \<noteq> Some sid
              then Migracao elapsed (t_id (heap s ! a)) (t_prioridade (heap s ! a))
                     (the (last_worker (heap s ! a))) sid policy
              else Atribuicao elapsed (t_id (heap s ! a)) (t_prioridade (heap s ! a)) sid policy]"
  using assms
  by (elim atribuir_InrE) (auto simp: evento_atribuicao_def split: option.splits)

theorem evento_de_atribuicao_witness:
  "\<exists>els' s'. atribuir (Scheduler ''rr'') ''rr'' 2 1 [0] s_mig = Inr (els', s') \<and>
     (\<exists>sid m. filas s' = [(sid, m)] \<and> last_worker (heap s' ! 0) = Some sid \<and>
        saida s' = [Migracao 1 7 1 2 sid ''rr''])"
proof -
  obtain els' s' where
    eq: "atribuir (Scheduler ''rr'') ''rr'' 2 1 [0] s_mig = Inr (els', s')"
    by (simp add: s_mig_def ex_defs)
  have nt: "next_task (Scheduler ''rr'') (heap s_mig) [0] = (0, [])"
    by (simp add: Scheduler_def)
  from eq have "filas s' = [(1, construir_msg ''rr'' 2 ((heap s_mig ! 0)\<lparr>running := True\<rparr>))]"
    by (auto simp: s_mig_def ex_defs)
  with evento_de_atribuicao [OF eq nt] have
    "\<exists>sid m. filas s' = [(sid, m)] \<and> last_worker (heap s' ! 0) = Some sid \<and>
        saida s' = [Migracao 1 7 1 2 sid ''rr'']"
    by (auto simp: s_mig_def ex_defs)
  with eq show ?thesis by blast
qed

subsection \<open>The server chosen\<close>

lemma py_min_aux_spec:
  assumes "\<forall>y\<in>set ys. tab E y \<noteq> None"
  shows "\<exists>m. py_min_aux E ys best bl = Inr m \<and>
           ((m = best \<and> (\<forall>y\<in>set ys. bl \<le> carga E y)) \<or>
            (carga E m < bl \<and> primeiro_minimo E ys m))"
  using assms
proof (induction ys arbitrary: best bl)
  case Nil
  then show ?case by simp
next
  case (Cons y ys)
  from Cons.prems obtain st where st: "tab E y = Some st" by auto
  then have ld: "load_de E y = Inr (load st)" and cy: "carga E y = load st"
    by (simp_all add: load_de_def carga_def)
  from Cons.prems have dom: "\<forall>z\<in>set ys. tab E z \<noteq> None" by simp
  show ?case
  proof (cases "load st < bl")
    case True
    from Cons.IH [OF dom, of y "load st"] obtain m where
      m: "py_min_aux E ys y (load st) = Inr m" and
      d: "(m = y \<and> (\<forall>z\<in>set ys. load st \<le> carga E z)) \<or>
          (carga E m < load st \<and> primeiro_minimo E ys m)"
      by blast
    from d show ?thesis
    proof
      assume a: "m = y \<and> (\<forall>z\<in>set ys. load st \<le> carga E z)"
      then have "primeiro_minimo E (y # ys) m"
        unfolding primeiro_minimo_def using cy
        by (intro exI [of _ "[]"] exI [of _ ys]) simp
      with a True m ld cy show ?thesis by simp
    next
      assume b: "carga E m < load st \<and> primeiro_minimo E ys m"
      then obtain pre pos where
        "ys = pre @ m # pos" "\<forall>z\<in>set pre. carga E m < carga E z"
        "\<forall>z\<in>set pos. carga E m \<le> carga E z"
        unfolding primeiro_minimo_def by blast
      with b cy have "primeiro_minimo E (y # ys) m"
        unfolding primeiro_minimo_def
        by (intro exI [of _ "y # pre"] exI [of _ pos]) simp
      with b True m ld show ?thesis by auto
    qed
  next
    case False
    from Cons.IH [OF dom, of best bl] obtain m where
      m: "py_min_aux E ys best bl = Inr m" and
      d: "(m = best \<and> (\<forall>z\<in>set ys. bl \<le> carga E z)) \<or>
          (carga E m < bl \<and> primeiro_minimo E ys m)"
      by blast
    from d show ?thesis
    proof
      assume "m = best \<and> (\<forall>z\<in>set ys. bl \<le> carga E z)"
      with False m ld cy show ?thesis by auto
    next
      assume b: "carga E m < bl \<and> primeiro_minimo E ys m"
      then obtain pre pos where
        "ys = pre @ m # pos" "\<forall>z\<in>set pre. carga E m < carga E z"
        "\<forall>z\<in>set pos. carga E m \<le> carga E z"
        unfolding primeiro_minimo_def by blast
      with b cy False have "primeiro_minimo E (y # ys) m"
        unfolding primeiro_minimo_def
        by (intro exI [of _ "y # pre"] exI [of _ pos]) simp
      with b False m ld show ?thesis by auto
    qed
  qed
qed

lemma py_min_spec:
  assumes "xs \<noteq> []" and "\<forall>y\<in>set xs. tab E y \<noteq> None"
  shows "\<exists>m. py_min E xs = Inr m \<and> primeiro_minimo E xs m"
proof -
  from assms(1) obtain x xs' where xs: "xs = x # xs'" by (cases xs) auto
  with assms(2) obtain st where st: "tab E x = Some st" by auto
  then have ld: "load_de E x = Inr (load st)" and cx: "carga E x = load st"
    by (simp_all add: load_de_def carga_def)
  from assms(2) xs have "\<forall>y\<in>set xs'. tab E y \<noteq> None" by simp
  from py_min_aux_spec [OF this, of x "load st"] obtain m where
    m: "py_min_aux E xs' x (load st) = Inr m" and
    d: "(m = x \<and> (\<forall>z\<in>set xs'. load st \<le> carga E z)) \<or>
        (carga E m < load st \<and> primeiro_minimo E xs' m)"
    by blast
  from d have "primeiro_minimo E (x # xs') m"
  proof
    assume "m = x \<and> (\<forall>z\<in>set xs'. load st \<le> carga E z)"
    then show ?thesis
      unfolding primeiro_minimo_def using cx
      by (intro exI [of _ "[]"] exI [of _ xs']) simp
  next
    assume b: "carga E m < load st \<and> primeiro_minimo E xs' m"
    then obtain pre pos where
      "xs' = pre @ m # pos" "\<forall>z\<in>set pre. carga E m < carga E z"
      "\<forall>z\<in>set pos. carga E m \<le> carga E z"
      unfolding primeiro_minimo_def by blast
    with b cx show ?thesis
      unfolding primeiro_minimo_def
      by (intro exI [of _ "x # pre"] exI [of _ pos]) simp
  qed
  with m ld xs show ?thesis by simp
qed

lemma livres_de_dom: "\<forall>y\<in>set (livres_de E). tab E y \<noteq> None"
  by (auto simp: livres_de_iff)

text \<open>
  Claim C1, as amended. With a free server at hand, the server chosen for a task that ran
  before is the least loaded of the free servers other than \<open>last_worker\<close>, when there is
  one, and the least loaded of all free servers otherwise and for a task that never ran.
  Among servers of equal load the first in the order of \<open>estados\<close> (the order of the
  configuration) is chosen.
\<close>

theorem escolha_do_servidor:
  assumes "livres_de E \<noteq> []"
  shows "\<exists>sid. escolher_servidor E (livres_de E) t = Inr sid \<and>
           (case last_worker t of
              None \<Rightarrow> primeiro_minimo E (livres_de E) sid
            | Some w \<Rightarrow>
                if filter (\<lambda>x. x \<noteq> w) (livres_de E) \<noteq> []
                then primeiro_minimo E (filter (\<lambda>x. x \<noteq> w) (livres_de E)) sid
                else primeiro_minimo E (livres_de E) sid)"
proof (cases "last_worker t")
  case None
  with py_min_spec [OF assms livres_de_dom] show ?thesis
    by (simp add: escolher_servidor_def)
next
  case (Some w)
  show ?thesis
  proof (cases "filter (\<lambda>x. x \<noteq> w) (livres_de E) = []")
    case True
    with Some py_min_spec [OF assms livres_de_dom] show ?thesis
      by (simp add: escolher_servidor_def)
  next
    case False
    have "\<forall>y\<in>set (filter (\<lambda>x. x \<noteq> w) (livres_de E)). tab E y \<noteq> None"
      using livres_de_dom by auto
    from py_min_spec [OF False this] Some False show ?thesis
      by (simp add: escolher_servidor_def)
  qed
qed

theorem escolha_do_servidor_witness:
  "livres_de (estados s_mig) \<noteq> [] \<and>
   (\<exists>sid. escolher_servidor (estados s_mig) (livres_de (estados s_mig)) (heap s_mig ! 0) = Inr sid \<and>
      primeiro_minimo (estados s_mig) (filter (\<lambda>x. x \<noteq> 2) (livres_de (estados s_mig))) sid)"
proof -
  have h: "livres_de (estados s_mig) \<noteq> []"
    by (simp add: s_mig_def ex_defs)
  have lw: "last_worker (heap s_mig ! 0) = Some 2"
    by (simp add: s_mig_def ex_defs)
  have f: "filter (\<lambda>x. x \<noteq> 2) (livres_de (estados s_mig)) \<noteq> []"
    by (simp add: s_mig_def ex_defs)
  from escolha_do_servidor [OF h, of "heap s_mig ! 0"] lw f h show ?thesis
    by simp
qed

text \<open>
  Claim C1, as stated, fails: with the idle servers listed as 3, 2, 1 and a task that last
  ran on server 3, the alternate free servers are 2 and 1, both with load 0, and the task
  goes to server 2, although server 1 has the smaller id.
\<close>

theorem escolha_por_menor_id_counterexample:
  "last_worker (heap s_mig3 ! 0) = Some 3 \<and>
   livres_de (estados s_mig3) = [3, 2, 1] \<and>
   load_de (estados s_mig3) 2 = Inr 0 \<and>
   load_de (estados s_mig3) 1 = Inr 0 \<and>
   (1::int) < 2 \<and>
   escolher_servidor (estados s_mig3) (livres_de (estados s_mig3)) (heap s_mig3 ! 0) = Inr 2 \<and>
   map fst (filas (snd (projr (atribuir (Scheduler ''rr'') ''rr'' 2 1 [0] s_mig3)))) = [2]"
  by (simp add: s_mig3_def cfg_ex3_def ex_defs)

section \<open>Properties of one response\<close>

lemma length_atualizar_tarefa [simp]: "length (atualizar_tarefa resp ps h) = length h"
  by (induction ps) auto

lemma atualizar_tarefa_nomatch:
  "\<forall>p\<in>set ps. t_id (h ! p) \<noteq> rp_id resp \<Longrightarrow> atualizar_tarefa resp ps h = h"
  by (induction ps) auto

lemma atualizar_tarefa_match:
  assumes "a \<in> set ps" and "t_id (h ! a) = rp_id resp"
    and "\<forall>p\<in>set ps. t_id (h ! p) = rp_id resp \<longrightarrow> p = a"
  shows "atualizar_tarefa resp ps h =
           h[a := (h ! a)\<lparr>remaining := rp_remaining resp, running := False\<rparr>]"
  using assms
proof (induction ps)
  case Nil
  then show ?case by simp
next
  case (Cons p ps)
  show ?case
  proof (cases "t_id (h ! p) = rp_id resp")
    case True
    with Cons.prems(3) have "p = a" by simp
    with True show ?thesis by simp
  next
    case False
    with Cons.prems(1,2) have mem: "a \<in> set ps" by auto
    from Cons.prems(3) have uniq: "\<forall>q\<in>set ps. t_id (h ! q) = rp_id resp \<longrightarrow> q = a"
      by simp
    have "atualizar_tarefa resp ps h =
           h[a := (h ! a)\<lparr>remaining := rp_remaining resp, running := False\<rparr>]"
      using mem Cons.prems(2) uniq by (rule Cons.IH)
    with False show ?thesis by simp
  qed
qed

lemma filter_apos_match:
  assumes "a < length h" and "t_id (h ! a) = rp_id resp"
    and "\<forall>p\<in>set ps. t_id (h ! p) = rp_id resp \<longrightarrow> p = a"
  shows "filter (\<lambda>p. t_id (h[a := (h ! a)\<lparr>remaining := x, running := False\<rparr>] ! p) \<noteq> rp_id resp) ps =
           filter (\<lambda>p. p \<noteq> a) ps"
proof (rule filter_cong [OF refl])
  fix p assume p: "p \<in> set ps"
  show "(t_id (h[a := (h ! a)\<lparr>remaining := x, running := False\<rparr>] ! p) \<noteq> rp_id resp) = (p \<noteq> a)"
  proof (cases "p = a")
    case True
    with assms(1,2) show ?thesis by simp
  next
    case False
    with assms(3) p have "t_id (h ! p) \<noteq> rp_id resp" by blast
    with False show ?thesis by simp
  qed
qed

lemmas run_defs = s_run_def resp_ex_def processar_resposta_def

text \<open>What one response does to a state in which exactly one pending task has its id.\<close>

lemma processar_resposta_unica:
  assumes "tab (estados s) (worker resp) = Some st"
    and "a \<in> set (pending s)" and "a < length (heap s)" and "t_id (heap s ! a) = rp_id resp"
    and "\<forall>p\<in>set (pending s). t_id (heap s ! p) = rp_id resp \<longrightarrow> p = a"
    and "rp_remaining resp = 0 \<longrightarrow> tab (completed s) (rp_id resp) = Some c"
  shows "\<exists>s'. processar_resposta start now2 resp s = Inr s' \<and>
           tab (estados s') (worker resp) =
             Some (st\<lparr>busy := busy st + duration resp, load := load st - 1\<rparr>) \<and>
           (\<forall>w. w \<noteq> worker resp \<longrightarrow> tab (estados s') w = tab (estados s) w) \<and>
           heap s' = (heap s)[a := (heap s ! a)\<lparr>remaining := rp_remaining resp, running := False\<rparr>] \<and>
           (if rp_remaining resp = 0
            then tab (completed s') (rp_id resp) = Some (c\<lparr>c_end := Some now2\<rparr>) \<and>
                 pending s' = filter (\<lambda>p. p \<noteq> a) (pending s) \<and>
                 saida s' = saida s @
                   [Conclusao (now2 - start) (worker resp) (rp_id resp) (cpu resp) (memory resp)]
            else completed s' = completed s \<and> pending s' = pending s \<and>
                 saida s' = saida s @
                   [Preempcao (now2 - start) (worker resp) (rp_id resp) (rp_remaining resp)
                      (cpu resp) (memory resp)])"
proof -
  have h': "atualizar_tarefa resp (pending s) (heap s) =
              (heap s)[a := (heap s ! a)\<lparr>remaining := rp_remaining resp, running := False\<rparr>]"
    using assms(2,4,5) by (rule atualizar_tarefa_match)
  have f: "filter (\<lambda>p. t_id ((heap s)[a := (heap s ! a)\<lparr>remaining := rp_remaining resp, running := False\<rparr>] ! p) \<noteq> rp_id resp) (pending s) =
           filter (\<lambda>p. p \<noteq> a) (pending s)"
    using assms(3,4,5) by (rule filter_apos_match)
  show ?thesis
  proof (cases "rp_remaining resp = 0")
    case True
    with assms(6) have c: "tab (completed s) (rp_id resp) = Some c" by simp
    show ?thesis
      using True c assms(1) h' f
      by (simp add: processar_resposta_def Let_def dict_set_def)
  next
    case False
    then show ?thesis
      using assms(1) h'
      by (simp add: processar_resposta_def Let_def dict_set_def)
  qed
qed

text \<open>
  Claim C9, as amended. A response whose task id matches no pending task is processed
  like any other: the server's load and \<open>busy\<close> are updated and no task is touched. With
  remaining time other than 0 the step ends normally with a preemption line. With
  remaining time 0 it raises \<open>KeyError\<close> only if the id has no completion record;
  if it has one, the record's end time is overwritten and a completion line is printed.
\<close>

theorem resposta_desconhecida:
  assumes "\<forall>p\<in>set (pending s). t_id (heap s ! p) \<noteq> rp_id resp"
    and "tab (estados s) (worker resp) = Some st"
  shows "processar_resposta start now2 resp s =
           (if rp_remaining resp \<noteq> 0
            then Inr (s\<lparr>estados := dict_set (estados s) (worker resp)
                                    (st\<lparr>busy := busy st + duration resp, load := load st - 1\<rparr>),
                        saida := saida s @
                          [Preempcao (now2 - start) (worker resp) (rp_id resp) (rp_remaining resp)
                             (cpu resp) (memory resp)]\<rparr>)
            else (case tab (completed s) (rp_id resp) of
                    None \<Rightarrow> Inl KeyError
                  | Some c \<Rightarrow>
                      Inr (s\<lparr>estados := dict_set (estados s) (worker resp)
                                    (st\<lparr>busy := busy st + duration resp, load := load st - 1\<rparr>),
                             completed := dict_set (completed s) (rp_id resp) (c\<lparr>c_end := Some now2\<rparr>),
                             saida := saida s @
                               [Conclusao (now2 - start) (worker resp) (rp_id resp) (cpu resp)
                                  (memory resp)]\<rparr>)))"
proof -
  have h: "atualizar_tarefa resp (pending s) (heap s) = heap s"
    using assms(1) by (rule atualizar_tarefa_nomatch)
  have f: "filter (\<lambda>p. t_id (heap s ! p) \<noteq> rp_id resp) (pending s) = pending s"
    using assms(1) by (simp add: filter_id_conv)
  show ?thesis
    using assms(2) h f
    by (simp add: processar_resposta_def Let_def split: option.splits)
qed

theorem resposta_desconhecida_witness:
  "map (\<lambda>p. t_id (heap s_run ! p)) (pending s_run) = [7] \<and>
   rp_id (resp_ex 2 99 1) = 99 \<and>
   tab (estados s_run) (worker (resp_ex 2 99 1)) = Some \<lparr>cap = 1, load = 1, busy = 0\<rparr> \<and>
   processar_resposta 0 2 (resp_ex 2 99 1) s_run =
     Inr (s_run\<lparr>estados := dict_set (estados s_run) 2 \<lparr>cap = 1, load = 0, busy = 2\<rparr>,
                saida := saida s_run @ [Preempcao 2 2 99 1 50 10]\<rparr>)"
proof -
  have 1: "\<forall>p\<in>set (pending s_run). t_id (heap s_run ! p) \<noteq> rp_id (resp_ex 2 99 1)"
    by (simp add: run_defs ex_defs)
  have 2: "tab (estados s_run) (worker (resp_ex 2 99 1)) = Some \<lparr>cap = 1, load = 1, busy = 0\<rparr>"
    by (simp add: run_defs ex_defs)
  have 3: "map (\<lambda>p. t_id (heap s_run ! p)) (pending s_run) = [7]"
    by (simp add: run_defs ex_defs)
  from resposta_desconhecida [OF 1 2, of 0 2] 2 3 show ?thesis
    by (simp add: resp_ex_def)
qed

text \<open>
  Claim C9, as stated, fails: with task 7 pending, a response for task 99 with remaining
  time 1 is drained without an error, and leaves a preemption line behind.
\<close>

theorem resposta_desconhecida_counterexample:
  "pending s_run = [0] \<and> t_id (heap s_run ! 0) = 7 \<and> rp_id (resp_ex 2 99 1) = 99 \<and>
   \<not> isl (processar_resposta 0 2 (resp_ex 2 99 1) s_run) \<and>
   pending (projr (processar_resposta 0 2 (resp_ex 2 99 1) s_run)) = [0] \<and>
   saida (projr (processar_resposta 0 2 (resp_ex 2 99 1) s_run)) =
     [Atribuicao 0 7 1 2 ''rr'', Preempcao 2 2 99 1 50 10]"
  by (simp add: run_defs ex_defs)

section \<open>The metrics and the run without requests\<close>

lemma tempos_de_fechados:
  "\<forall>c\<in>set cs. c_end c \<noteq> None \<Longrightarrow>
     tempos_de cs = Inr (map (\<lambda>c. the (c_end c) - c_arrival c) cs)"
  by (induction cs) auto

lemma soma_util_ok:
  "tot \<noteq> 0 \<Longrightarrow> soma_util tot sts = Inr (\<Sum>st\<leftarrow>sts. busy st / tot * 100)"
  by (induction sts) (auto simp: py_div_def)

text \<open>
  Claim C4. When every completion record is closed, at least one task completed, the
  elapsed time \<open>T\<close> is not 0 and there is a server, the metrics are: the mean of
  \<open>end - arrival\<close> over the records, the number of records divided by \<open>T\<close>, and the mean
  over the servers of \<open>busy / T * 100\<close>. For one task with arrival 0 and end 4 and
  \<open>T = 4\<close> the mean response time is 4 and the throughput is 1/4, as the example after
  the theorem computes.
\<close>

theorem metricas_finais:
  assumes "\<forall>c\<in>set (dict_values (completed s)). c_end c \<noteq> None"
    and "dict_values (completed s) \<noteq> []"
    and "T \<noteq> 0"
    and "dict_values (estados s) \<noteq> []"
  shows "metricas s T =
           Inr \<lparr>tempo_medio =
                  (\<Sum>c\<leftarrow>dict_values (completed s). the (c_end c) - c_arrival c) /
                    of_nat (dict_len (completed s)),
                throughput = of_nat (dict_len (completed s)) / T,
                utilizacao =
                  (\<Sum>st\<leftarrow>dict_values (estados s). busy st / T * 100) /
                    of_nat (dict_len (estados s))\<rparr>"
proof -
  have t: "tempos_de (dict_values (completed s)) =
             Inr (map (\<lambda>c. the (c_end c) - c_arrival c) (dict_values (completed s)))"
    using assms(1) by (rule tempos_de_fechados)
  have u: "soma_util T (dict_values (estados s)) =
             Inr (\<Sum>st\<leftarrow>dict_values (estados s). busy st / T * 100)"
    using assms(3) by (rule soma_util_ok)
  have n: "dict_len (completed s) \<noteq> 0" and m: "dict_len (estados s) \<noteq> 0"
    using assms(2,4) by (simp_all add: dict_len_def dict_values_def)
  have l: "length (dict_values (completed s)) = dict_len (completed s)"
    by (simp add: dict_len_def dict_values_def)
  show ?thesis
    using n m assms(3) by (simp add: metricas_def t u l py_div_def)
qed

theorem metricas_finais_witness:
  "dict_values (completed s_fim) = [\<lparr>c_arrival = 0, c_end = Some 4\<rparr>] \<and>
   metricas s_fim 4 = Inr \<lparr>tempo_medio = 4, throughput = 1 / 4, utilizacao = 50\<rparr>"
proof -
  have c: "dict_values (completed s_fim) = [\<lparr>c_arrival = 0, c_end = Some 4\<rparr>]"
    by (simp add: s_fim_def dict_values_def ex_defs)
  have e: "dict_values (estados s_fim) =
             [\<lparr>cap = 1, load = 0, busy = 4\<rparr>, \<lparr>cap = 1, load = 0, busy = 0\<rparr>]"
    by (simp add: s_fim_def dict_values_def ex_defs)
  have 1: "\<forall>c\<in>set (dict_values (completed s_fim)). c_end c \<noteq> None"
    by (simp add: c)
  have 2: "dict_values (completed s_fim) \<noteq> []" by (simp add: c)
  have 3: "(4::rat) \<noteq> 0" by simp
  have 4: "dict_values (estados s_fim) \<noteq> []" by (simp add: e)
  have n: "dict_len (completed s_fim) = 1" "dict_len (estados s_fim) = 2"
    by (simp_all add: s_fim_def dict_len_def ex_defs)
  from metricas_finais [OF 1 2 3 4] have
    "metricas s_fim 4 = Inr \<lparr>tempo_medio = 4, throughput = 1 / 4, utilizacao = 50\<rparr>"
    by (simp add: c e n)
  with c show ?thesis by simp
qed

lemma atribuir_loop_Nil: "atribuir_loop sched policy q elapsed [] s = Inr s"
  by (subst atribuir_loop.simps) simp

text \<open>
  Claim C10. With an empty list of requests the first cycle assigns nothing, finds the
  stopping condition true, and the metrics divide 0 by the number of completion records,
  which is 0: the run ends in \<open>ZeroDivisionError\<close>.
\<close>

theorem sem_requisicoes:
  assumes "requisicoes cfg = []" and "respostas tq = []"
    and "reorder (Sched policy) [] [] = []"
  shows "executar_politica Sched policy cfg start (tq # tqs) fim = Some (Inl ZeroDivisionError)"
proof -
  let ?s = "estado_inicial start cfg"
  have h: "heap ?s = []" and p: "pending ?s = []" and c: "completed ?s = dict_empty"
    using assms(1) by (simp_all add: estado_inicial_def)
  have e: "elegiveis_de ?s = []"
    by (simp add: elegiveis_de_def p)
  have stop: "condicao_parada ?s"
    by (simp add: condicao_parada_def p)
  have cyc: "ciclos (Sched policy) policy (quantum cfg) start (tq # tqs) ?s = Some (Inr ?s)"
    using assms(2,3) stop by (simp add: Let_def e h atribuir_loop_Nil)
  have met: "metricas ?s (fim - start) = Inl ZeroDivisionError"
    by (simp add: metricas_def c dict_values_def dict_items_def dict_empty_def py_div_def)
  show ?thesis
    unfolding executar_politica_def cyc by (simp add: met)
qed

theorem sem_requisicoes_witness:
  "requisicoes (cfg_ex\<lparr>requisicoes := []\<rparr>) = [] \<and>
   respostas \<lparr>agora = 0, respostas = []\<rparr> = [] \<and>
   reorder (Scheduler ''sjf'') [] [] = [] \<and>
   executar_politica Scheduler ''sjf'' (cfg_ex\<lparr>requisicoes := []\<rparr>) 0
     [\<lparr>agora = 0, respostas = []\<rparr>] 1 = Some (Inl ZeroDivisionError)"
proof -
  have 1: "requisicoes (cfg_ex\<lparr>requisicoes := []\<rparr>) = []" by simp
  have 2: "respostas \<lparr>agora = 0, respostas = []\<rparr> = []" by simp
  have 3: "reorder (Scheduler ''sjf'') [] [] = []" by (simp add: Scheduler_def)
  from sem_requisicoes [of "cfg_ex\<lparr>requisicoes := []\<rparr>" "\<lparr>agora = 0, respostas = []\<rparr>" Scheduler "''sjf''", OF 1 2 3]
    1 2 3 show ?thesis by simp
qed

section \<open>Invariants\<close>

lemma processar_InrE:
  assumes "processar_resposta start now2 resp s = Inr s'"
  obtains st where
    "tab (estados s) (worker resp) = Some st"
    "estados s' = dict_set (estados s) (worker resp)
                    (st\<lparr>busy := busy st + duration resp, load := load st - 1\<rparr>)"
    "heap s' = atualizar_tarefa resp (pending s) (heap s)"
    "pending s' =
       (if rp_remaining resp = 0
        then filter (\<lambda>p. t_id (heap s' ! p) \<noteq> rp_id resp) (pending s)
        else pending s)"
    "filas s' = filas s"
proof -
  from assms obtain st where st: "tab (estados s) (worker resp) = Some st"
    by (auto simp: processar_resposta_def Let_def split: option.splits)
  show thesis
  proof (cases "rp_remaining resp = 0")
    case True
    with assms st obtain c where "tab (completed s) (rp_id resp) = Some c"
      by (auto simp: processar_resposta_def Let_def split: option.splits)
    with assms st True show thesis
      by (intro that [OF st]) (auto simp: processar_resposta_def Let_def)
  next
    case False
    with assms st show thesis
      by (intro that [OF st]) (auto simp: processar_resposta_def Let_def)
  qed
qed

lemma atualizar_tarefa_nth:
  assumes "p < length h"
  shows "atualizar_tarefa resp ps h ! p = h ! p \<or>
         (atualizar_tarefa resp ps h ! p =
            (h ! p)\<lparr>remaining := rp_remaining resp, running := False\<rparr> \<and>
          t_id (h ! p) = rp_id resp)"
proof (induction ps)
  case Nil
  show ?case by simp
next
  case (Cons q qs)
  show ?case
  proof (cases "t_id (h ! q) = rp_id resp")
    case True
    show ?thesis
    proof (cases "q = p")
      case True
      with \<open>t_id (h ! q) = rp_id resp\<close> assms show ?thesis by simp
    next
      case False
      with True show ?thesis by simp
    qed
  next
    case False
    with Cons.IH show ?thesis by simp
  qed
qed

lemma inv_restante_inicio:
  assumes "\<forall>r\<in>set (requisicoes cfg). 0 < tempo_exec r"
  shows "inv_restante (estado_inicial start cfg)"
proof -
  have "0 < tempo_exec (requisicoes cfg ! p)" if "p < length (requisicoes cfg)" for p
    using assms that by (simp add: all_set_conv_all_nth)
  then show ?thesis
    by (fastforce simp: inv_restante_def estado_inicial_def nova_tarefa_def)
qed

lemma inv_restante_atribuir:
  assumes "inv_restante s" and "atribuir sched policy q elapsed els s = Inr (els', s')"
  shows "inv_restante s'"
proof -
  from assms(2) obtain a sid where
    h: "heap s' = (heap s)[a := (heap s ! a)\<lparr>running := True, last_worker := Some sid\<rparr>]"
    and p: "pending s' = pending s"
    by (rule atribuir_InrE)
  show ?thesis
    unfolding inv_restante_def
  proof
    fix x assume "x \<in> set (pending s')"
    with p assms(1) have x: "x < length (heap s)" "remaining (heap s ! x) \<noteq> 0"
      by (auto simp: inv_restante_def)
    then show "x < length (heap s') \<and> remaining (heap s' ! x) \<noteq> 0"
      by (cases "x = a") (simp_all add: h)
  qed
qed

lemma inv_restante_processar:
  assumes "inv_restante s" and "processar_resposta start now2 resp s = Inr s'"
  shows "inv_restante s'"
proof -
  from assms(2) have
    h: "heap s' = atualizar_tarefa resp (pending s) (heap s)"
    and p: "pending s' =
       (if rp_remaining resp = 0
        then filter (\<lambda>p. t_id (heap s' ! p) \<noteq> rp_id resp) (pending s)
        else pending s)"
    by (auto elim: processar_InrE)
  show ?thesis
    unfolding inv_restante_def
  proof
    fix x assume xs': "x \<in> set (pending s')"
    with p have xs: "x \<in> set (pending s)" by (auto split: if_splits)
    with assms(1) have x: "x < length (heap s)" "remaining (heap s ! x) \<noteq> 0"
      by (auto simp: inv_restante_def)
    from atualizar_tarefa_nth [OF x(1), of resp "pending s"]
    have "remaining (heap s' ! x) \<noteq> 0"
    proof
      assume "atualizar_tarefa resp (pending s) (heap s) ! x = heap s ! x"
      with x(2) h show ?thesis by simp
    next
      assume u: "atualizar_tarefa resp (pending s) (heap s) ! x =
                   (heap s ! x)\<lparr>remaining := rp_remaining resp, running := False\<rparr> \<and>
                 t_id (heap s ! x) = rp_id resp"
      then have id: "t_id (heap s' ! x) = rp_id resp" using h by simp
      show ?thesis
      proof (cases "rp_remaining resp = 0")
        case True
        with p xs' id show ?thesis by simp
      next
        case False
        with u h show ?thesis by simp
      qed
    qed
    with x(1) h show "x < length (heap s') \<and> remaining (heap s' ! x) \<noteq> 0" by simp
  qed
qed

lemma alcancavel_inv_restante:
  assumes "alcancavel sched policy cfg start els s rs"
    and "\<forall>r\<in>set (requisicoes cfg). 0 < tempo_exec r"
  shows "inv_restante s"
  using assms
proof (induction rule: alcancavel.induct)
  case inicio
  then show ?case by (rule inv_restante_inicio)
next
  case (ciclo els s rs)
  then show ?case by simp
next
  case (atrib els s rs elapsed els' s')
  then show ?case by (auto intro: inv_restante_atribuir)
next
  case (dreno els s rs resp now2 s')
  then show ?case by (auto intro: inv_restante_processar)
qed

subsection \<open>Load and capacity\<close>

lemma length_filter_mset_mono:
  assumes "mset xs \<subseteq># mset ys"
  shows "length (filter P xs) \<le> length (filter P ys)"
proof -
  have "filter_mset P (mset xs) \<subseteq># filter_mset P (mset ys)"
    using assms by (rule multiset_filter_mono)
  then have "size (filter_mset P (mset xs)) \<le> size (filter_mset P (mset ys))"
    by (rule size_mset_mono)
  then show ?thesis
    by (simp flip: mset_filter)
qed

lemma estados_iniciais_aux:
  assumes "\<forall>w st. tab d w = Some st \<longrightarrow> load st = 0 \<and> 0 \<le> cap st"
    and "\<forall>sv\<in>set svs. 0 \<le> capacidade sv"
    and "tab (foldl (\<lambda>d sv. dict_set d (s_id sv) \<lparr>cap = capacidade sv, load = 0, busy = 0\<rparr>) d svs) w
           = Some st"
  shows "load st = 0 \<and> 0 \<le> cap st"
  using assms
proof (induction svs arbitrary: d)
  case Nil
  then show ?case by simp
next
  case (Cons sv svs)
  let ?d = "dict_set d (s_id sv) \<lparr>cap = capacidade sv, load = 0, busy = 0\<rparr>"
  have "\<forall>w st. tab ?d w = Some st \<longrightarrow> load st = 0 \<and> 0 \<le> cap st"
    using Cons.prems(1,2) by (auto simp: dict_set_def)
  moreover have "\<forall>sv\<in>set svs. 0 \<le> capacidade sv"
    using Cons.prems(2) by simp
  moreover have "tab (foldl (\<lambda>d sv. dict_set d (s_id sv) \<lparr>cap = capacidade sv, load = 0, busy = 0\<rparr>) ?d svs) w
           = Some st"
    using Cons.prems(3) by simp
  ultimately show ?case by (rule Cons.IH)
qed

lemma inv_carga_inicio:
  assumes "\<forall>sv\<in>set (servidores cfg). 0 \<le> capacidade sv"
  shows "inv_carga (estado_inicial start cfg) []"
proof -
  have "load st = 0 \<and> 0 \<le> cap st"
    if "tab (estados_iniciais (servidores cfg)) w = Some st" for w st
  proof (rule estados_iniciais_aux [OF _ assms])
    show "\<forall>w st. tab (dict_empty :: (int, estado) dict) w = Some st \<longrightarrow> load st = 0 \<and> 0 \<le> cap st"
      by (simp add: dict_empty_def)
    show "tab (foldl (\<lambda>d sv. dict_set d (s_id sv) \<lparr>cap = capacidade sv, load = 0, busy = 0\<rparr>)
                 dict_empty (servidores cfg)) w = Some st"
      using that by (simp add: estados_iniciais_def)
  qed
  then show ?thesis
    by (simp add: inv_carga_def estado_inicial_def enviadas_def do_servidor_def)
qed

lemma enviadas_atribuir:
  assumes "filas s' = filas s @ [(sid, construir_msg policy q t)]"
  shows "enviadas s' = enviadas s @ [(sid, t_id t)]"
  using assms by (simp add: enviadas_def construir_msg_def Let_def)

lemma inv_carga_atribuir:
  assumes "inv_carga s rs" and "atribuir sched policy q elapsed els s = Inr (els', s')"
  shows "inv_carga s' rs"
proof -
  from assms(2) obtain a sid st where
    ch: "escolher_servidor (estados s) (livres_de (estados s)) (heap s ! a) = Inr sid"
    and tb: "tab (estados s) sid = Some st"
    and es: "estados s' = dict_set (estados s) sid (st\<lparr>load := load st + 1\<rparr>)"
    and fi: "filas s' = filas s @ [(sid, construir_msg policy q ((heap s ! a)\<lparr>running := True\<rparr>))]"
    by (rule atribuir_InrE)
  from fi have env: "enviadas s' = enviadas s @ [(sid, t_id (heap s ! a))]"
    by (simp add: enviadas_atribuir)
  from ch have "sid \<in> set (livres_de (estados s))" by (rule escolher_servidor_mem)
  with tb have lt: "load st < cap st" by (auto simp: livres_de_iff)
  from assms(1) have sub: "mset rs \<subseteq># mset (enviadas s)"
    and ld: "\<And>w st. tab (estados s) w = Some st \<Longrightarrow>
               load st = int (do_servidor w (enviadas s)) - int (do_servidor w rs) \<and>
               load st \<le> cap st"
    unfolding inv_carga_def by blast+
  have "mset (enviadas s) \<subseteq># mset (enviadas s) + {#(sid, t_id (heap s ! a))#}"
    by (rule mset_subset_eq_add_left)
  with sub have "mset rs \<subseteq># mset (enviadas s) + {#(sid, t_id (heap s ! a))#}"
    by (rule subset_mset.trans)
  then have sub': "mset rs \<subseteq># mset (enviadas s')"
    by (simp add: env)
  have ld': "load st' = int (do_servidor w (enviadas s')) - int (do_servidor w rs) \<and>
             load st' \<le> cap st'"
    if "tab (estados s') w = Some st'" for w st'
  proof (cases "w = sid")
    case True
    with that es have "st' = st\<lparr>load := load st + 1\<rparr>" by (simp add: dict_set_def)
    with True ld [OF tb] lt show ?thesis by (simp add: env do_servidor_def)
  next
    case False
    with that es have "tab (estados s) w = Some st'" by (simp add: dict_set_def)
    from ld [OF this] False show ?thesis by (simp add: env do_servidor_def)
  qed
  show ?thesis
    unfolding inv_carga_def using sub' ld' by blast
qed

lemma inv_carga_processar:
  assumes "inv_carga s rs"
    and "add_mset (worker resp, rp_id resp) (mset rs) \<subseteq># mset (enviadas s)"
    and "processar_resposta start now2 resp s = Inr s'"
  shows "inv_carga s' ((worker resp, rp_id resp) # rs)"
proof -
  from assms(3) obtain st where
    tb: "tab (estados s) (worker resp) = Some st"
    and es: "estados s' = dict_set (estados s) (worker resp)
                    (st\<lparr>busy := busy st + duration resp, load := load st - 1\<rparr>)"
    and fi: "filas s' = filas s"
    by (rule processar_InrE)
  from fi have env: "enviadas s' = enviadas s" by (simp add: enviadas_def)
  from assms(1) have
    ld: "\<And>w st. tab (estados s) w = Some st \<Longrightarrow>
               load st = int (do_servidor w (enviadas s)) - int (do_servidor w rs) \<and>
               load st \<le> cap st"
    unfolding inv_carga_def by blast+
  have ld': "load st' = int (do_servidor w (enviadas s')) -
                          int (do_servidor w ((worker resp, rp_id resp) # rs)) \<and>
             load st' \<le> cap st'"
    if "tab (estados s') w = Some st'" for w st'
  proof (cases "w = worker resp")
    case True
    with that es have "st' = st\<lparr>busy := busy st + duration resp, load := load st - 1\<rparr>"
      by (simp add: dict_set_def)
    with True ld [OF tb] show ?thesis by (simp add: env do_servidor_def)
  next
    case False
    with that es have "tab (estados s) w = Some st'" by (simp add: dict_set_def)
    from ld [OF this] False show ?thesis by (simp add: env do_servidor_def)
  qed
  have sub': "mset ((worker resp, rp_id resp) # rs) \<subseteq># mset (enviadas s')"
    using assms(2) by (simp add: env)
  show ?thesis
    unfolding inv_carga_def using sub' ld' by blast
qed

lemma alcancavel_inv_carga:
  assumes "alcancavel sched policy cfg start els s rs"
    and "\<forall>sv\<in>set (servidores cfg). 0 \<le> capacidade sv"
  shows "inv_carga s rs"
  using assms
proof (induction rule: alcancavel.induct)
  case inicio
  then show ?case by (rule inv_carga_inicio)
next
  case (ciclo els s rs)
  then show ?case by simp
next
  case (atrib els s rs elapsed els' s')
  then show ?case by (auto intro: inv_carga_atribuir)
next
  case (dreno els s rs resp now2 s')
  then show ?case by (auto intro: inv_carga_processar)
qed

lemma alcancavel_s_run: "alcancavel (Scheduler ''rr'') ''rr'' cfg_ex 0 [] s_run []"
proof -
  let ?s0 = "estado_inicial 0 cfg_ex"
  have "alcancavel (Scheduler ''rr'') ''rr'' cfg_ex 0 [] ?s0 []"
    by (rule alcancavel.inicio)
  then have "alcancavel (Scheduler ''rr'') ''rr'' cfg_ex 0
               (reorder (Scheduler ''rr'') (heap ?s0) (elegiveis_de ?s0)) ?s0 []"
    by (rule alcancavel.ciclo)
  moreover have "reorder (Scheduler ''rr'') (heap ?s0) (elegiveis_de ?s0) = [0]"
    by (simp add: elegiveis_de_def ex_defs)
  ultimately have r: "alcancavel (Scheduler ''rr'') ''rr'' cfg_ex 0 [0] ?s0 []"
    by simp
  have l: "livres_de (estados ?s0) \<noteq> []"
    by (simp add: ex_defs)
  have a: "atribuir (Scheduler ''rr'') ''rr'' (quantum cfg_ex) 0 [0] ?s0 = Inr ([], s_run)"
    by (simp add: s_run_def ex_defs)
  show ?thesis
    by (rule alcancavel.atrib [OF r _ l a]) simp
qed

text \<open>
  Claim C7. When the capacities of the configuration are not negative and every drained
  response answers a message sent before and not yet answered, every server has
  \<open>0 \<le> load \<le> cap\<close> in every state the loop reaches, after an assignment as after a
  response.
\<close>

theorem capacidade_respeitada:
  assumes "alcancavel sched policy cfg start els s rs"
    and "\<forall>sv\<in>set (servidores cfg). 0 \<le> capacidade sv"
    and "tab (estados s) w = Some st"
  shows "0 \<le> load st \<and> load st \<le> cap st"
proof -
  from assms(1,2) have inv: "inv_carga s rs" by (rule alcancavel_inv_carga)
  then have "mset rs \<subseteq># mset (enviadas s)" by (simp add: inv_carga_def)
  then have "do_servidor w rs \<le> do_servidor w (enviadas s)"
    unfolding do_servidor_def by (rule length_filter_mset_mono)
  moreover from inv assms(3) have
    "load st = int (do_servidor w (enviadas s)) - int (do_servidor w rs)" "load st \<le> cap st"
    unfolding inv_carga_def by blast+
  ultimately show ?thesis by simp
qed

theorem capacidade_respeitada_witness:
  "alcancavel (Scheduler ''rr'') ''rr'' cfg_ex 0 [] s_run [] \<and>
   map capacidade (servidores cfg_ex) = [1, 1] \<and>
   tab (estados s_run) 2 = Some \<lparr>cap = 1, load = 1, busy = 0\<rparr> \<and>
   0 \<le> load \<lparr>cap = 1, load = 1, busy = 0\<rparr> \<and>
   load \<lparr>cap = 1, load = 1, busy = 0\<rparr> \<le> cap \<lparr>cap = 1, load = 1, busy = 0\<rparr>"
proof -
  have 2: "\<forall>sv\<in>set (servidores cfg_ex). 0 \<le> capacidade sv"
    by (simp add: cfg_ex_def)
  have 3: "tab (estados s_run) 2 = Some \<lparr>cap = 1, load = 1, busy = 0\<rparr>"
    by (simp add: s_run_def ex_defs)
  have 4: "map capacidade (servidores cfg_ex) = [1, 1]"
    by (simp add: cfg_ex_def)
  from capacidade_respeitada [OF alcancavel_s_run 2 3] alcancavel_s_run 3 4
  show ?thesis by blast
qed

subsection \<open>One message per task\<close>

lemma map_t_id_update:
  assumes "a < length h" and "t_id t' = t_id (h ! a)"
  shows "map t_id (h[a := t']) = map t_id h"
proof -
  have "map t_id (h[a := t']) = (map t_id h)[a := t_id t']"
    by (rule map_update)
  also have "\<dots> = map t_id h"
    using assms by (simp add: list_update_same_conv)
  finally show ?thesis .
qed

lemma ids_distintos_nth:
  assumes "distinct (map t_id h)" and "a < length h" and "b < length h"
    and "t_id (h ! a) = t_id (h ! b)"
  shows "a = b"
proof -
  have "map t_id h ! a = map t_id h ! b"
    using assms(2,3,4) by simp
  moreover have "a < length (map t_id h)" "b < length (map t_id h)"
    using assms(2,3) by simp_all
  ultimately show ?thesis
    using assms(1) nth_eq_iff_index_eq by blast
qed

lemma da_tarefa_append: "da_tarefa i (xs @ [(w, j)]) = da_tarefa i xs + (if j = i then 1 else 0)"
  by (simp add: da_tarefa_def)

lemma da_tarefa_Cons: "da_tarefa i ((w, j) # xs) = da_tarefa i xs + (if j = i then 1 else 0)"
  by (simp add: da_tarefa_def)

lemma inv_exclusao_inicio:
  assumes "distinct (map r_id (requisicoes cfg))"
  shows "inv_exclusao (estado_inicial start cfg) [] []"
proof -
  have "map t_id (map (nova_tarefa start) (requisicoes cfg)) = map r_id (requisicoes cfg)"
    by (simp add: nova_tarefa_def)
  with assms have ids: "distinct (map t_id (map (nova_tarefa start) (requisicoes cfg)))"
    by (simp only:)
  have run: "\<not> running (map (nova_tarefa start) (requisicoes cfg) ! a)"
    if "a < length (requisicoes cfg)" for a
    using that by (simp add: nova_tarefa_def)
  show ?thesis
    unfolding inv_exclusao_def estado_inicial_def enviadas_def
    using ids run by (simp add: da_tarefa_def)
qed

lemma inv_exclusao_ciclo:
  assumes "inv_exclusao s els rs" and "contrato sched"
  shows "inv_exclusao s (reorder sched (heap s) (elegiveis_de s)) rs"
proof -
  let ?els = "reorder sched (heap s) (elegiveis_de s)"
  from assms(2) have m: "mset ?els = mset (elegiveis_de s)"
    by (simp add: contrato_def)
  from assms(1) have dp: "distinct (pending s)"
    unfolding inv_exclusao_def by blast
  then have "distinct (elegiveis_de s)"
    by (simp add: elegiveis_de_def)
  with m have d: "distinct ?els"
    by (metis mset_eq_imp_distinct_iff)
  from m have "set ?els = set (elegiveis_de s)"
    by (rule mset_eq_setD)
  then have e: "\<forall>a\<in>set ?els. a \<in> set (pending s) \<and> \<not> running (heap s ! a)"
    by (simp add: elegiveis_de_def)
  from assms(1) d e show ?thesis
    unfolding inv_exclusao_def by blast
qed


lemma inv_exclusao_atribuir:
  assumes inv: "inv_exclusao s els rs" and ct: "contrato sched" and ne: "els \<noteq> []"
    and at: "atribuir sched policy q elapsed els s = Inr (els', s')"
  shows "inv_exclusao s' els' rs"
proof -
  from at obtain a sid where
    nt: "next_task sched (heap s) els = (a, els')"
    and len: "a < length (heap s)"
    and h: "heap s' = (heap s)[a := (heap s ! a)\<lparr>running := True, last_worker := Some sid\<rparr>]"
    and p: "pending s' = pending s"
    and fi: "filas s' = filas s @ [(sid, construir_msg policy q ((heap s ! a)\<lparr>running := True\<rparr>))]"
    by (rule atribuir_InrE)
  let ?i = "t_id (heap s ! a)"
  from fi have env: "enviadas s' = enviadas s @ [(sid, ?i)]"
    by (simp add: enviadas_atribuir)
  from inv have
    i1: "distinct (map t_id (heap s))" and
    i2: "distinct (pending s)" and
    i3: "\<forall>p\<in>set (pending s). p < length (heap s)" and
    i4: "\<forall>a<length (heap s). running (heap s ! a) \<longrightarrow> a \<in> set (pending s)" and
    i5: "\<forall>a<length (heap s).
           da_tarefa (t_id (heap s ! a)) (enviadas s) =
             da_tarefa (t_id (heap s ! a)) rs + (if running (heap s ! a) then 1 else 0)" and
    i6: "\<forall>x\<in>set (enviadas s). snd x \<in> t_id ` set (heap s)" and
    i7: "mset rs \<subseteq># mset (enviadas s)" and
    i8: "distinct els" and
    i9: "\<forall>a\<in>set els. a \<in> set (pending s) \<and> \<not> running (heap s ! a)"
    unfolding inv_exclusao_def by blast+
  from ct ne nt have m: "mset els = add_mset a (mset els')"
    unfolding contrato_def by blast
  then have "mset els = mset (a # els')" by simp
  then have "distinct els = distinct (a # els')" "set els = set (a # els')"
    by (metis mset_eq_imp_distinct_iff, metis mset_eq_setD)
  with i8 have ael: "a \<in> set els" and anot: "a \<notin> set els'" and d': "distinct els'"
    and sub: "set els' \<subseteq> set els"
    by auto
  from ael i9 have ap: "a \<in> set (pending s)" and nr: "\<not> running (heap s ! a)"
    by blast+
  have ids: "map t_id (heap s') = map t_id (heap s)"
    unfolding h using len by (rule map_t_id_update) simp
  have lh: "length (heap s') = length (heap s)"
    by (simp add: h)
  have sh: "t_id ` set (heap s') = t_id ` set (heap s)"
    using ids by (metis set_map)
  have nth_a: "heap s' ! a = (heap s ! a)\<lparr>running := True, last_worker := Some sid\<rparr>"
    using len by (simp add: h)
  have nth_b: "heap s' ! b = heap s ! b" if "b \<noteq> a" for b
    using that by (simp add: h)
  have id_b: "t_id (heap s ! b) \<noteq> ?i" if "b < length (heap s)" "b \<noteq> a" for b
    using ids_distintos_nth [OF i1 that(1) len] that(2) by blast
  have j1: "distinct (map t_id (heap s'))"
    using i1 by (simp add: ids)
  have j2: "distinct (pending s')"
    using i2 by (simp add: p)
  have j3: "\<forall>p\<in>set (pending s'). p < length (heap s')"
    using i3 by (simp add: p lh)
  have j4: "\<forall>b<length (heap s'). running (heap s' ! b) \<longrightarrow> b \<in> set (pending s')"
  proof (intro allI impI)
    fix b assume b: "b < length (heap s')" and r: "running (heap s' ! b)"
    show "b \<in> set (pending s')"
    proof (cases "b = a")
      case True
      with ap show ?thesis by (simp add: p)
    next
      case False
      with r have "running (heap s ! b)" by (simp add: nth_b)
      with i4 b show ?thesis by (simp add: p lh)
    qed
  qed
  have j5: "\<forall>b<length (heap s').
           da_tarefa (t_id (heap s' ! b)) (enviadas s') =
             da_tarefa (t_id (heap s' ! b)) rs + (if running (heap s' ! b) then 1 else 0)"
  proof (intro allI impI)
    fix b assume b: "b < length (heap s')"
    then have bl: "b < length (heap s)" by (simp add: lh)
    show "da_tarefa (t_id (heap s' ! b)) (enviadas s') =
             da_tarefa (t_id (heap s' ! b)) rs + (if running (heap s' ! b) then 1 else 0)"
    proof (cases "b = a")
      case True
      from i5 len nr have "da_tarefa ?i (enviadas s) = da_tarefa ?i rs" by simp
      with True show ?thesis
        by (simp add: nth_a env da_tarefa_append)
    next
      case False
      from i5 bl have "da_tarefa (t_id (heap s ! b)) (enviadas s) =
             da_tarefa (t_id (heap s ! b)) rs + (if running (heap s ! b) then 1 else 0)"
        by blast
      with False id_b [OF bl False] show ?thesis
        by (simp add: nth_b env da_tarefa_append)
    qed
  qed
  have "?i \<in> t_id ` set (heap s)"
    using len by (metis imageI nth_mem)
  with i6 have j6: "\<forall>x\<in>set (enviadas s'). snd x \<in> t_id ` set (heap s')"
    by (auto simp: env sh)
  have "mset (enviadas s) \<subseteq># mset (enviadas s) + {#(sid, ?i)#}"
    by (rule mset_subset_eq_add_left)
  with i7 have "mset rs \<subseteq># mset (enviadas s) + {#(sid, ?i)#}"
    by (rule subset_mset.trans)
  then have j7: "mset rs \<subseteq># mset (enviadas s')"
    by (simp add: env)
  have j9: "\<forall>b\<in>set els'. b \<in> set (pending s') \<and> \<not> running (heap s' ! b)"
  proof
    fix b assume b: "b \<in> set els'"
    with anot have "b \<noteq> a" by blast
    moreover from b sub i9 have "b \<in> set (pending s) \<and> \<not> running (heap s ! b)" by blast
    ultimately show "b \<in> set (pending s') \<and> \<not> running (heap s' ! b)"
      by (simp add: p nth_b)
  qed
  show ?thesis
    unfolding inv_exclusao_def using j1 j2 j3 j4 j5 j6 j7 d' j9 by blast
qed


lemma inv_exclusao_processar:
  assumes inv: "inv_exclusao s els rs"
    and env_ok: "add_mset (worker resp, rp_id resp) (mset rs) \<subseteq># mset (enviadas s)"
    and pr: "processar_resposta start now2 resp s = Inr s'"
  shows "inv_exclusao s' els ((worker resp, rp_id resp) # rs)"
proof -
  let ?i = "rp_id resp"
  from inv have
    i1: "distinct (map t_id (heap s))" and
    i2: "distinct (pending s)" and
    i3: "\<forall>p\<in>set (pending s). p < length (heap s)" and
    i4: "\<forall>a<length (heap s). running (heap s ! a) \<longrightarrow> a \<in> set (pending s)" and
    i5: "\<forall>a<length (heap s).
           da_tarefa (t_id (heap s ! a)) (enviadas s) =
             da_tarefa (t_id (heap s ! a)) rs + (if running (heap s ! a) then 1 else 0)" and
    i6: "\<forall>x\<in>set (enviadas s). snd x \<in> t_id ` set (heap s)" and
    i8: "distinct els" and
    i9: "\<forall>a\<in>set els. a \<in> set (pending s) \<and> \<not> running (heap s ! a)"
    unfolding inv_exclusao_def by blast+
  from pr have
    h0: "heap s' = atualizar_tarefa resp (pending s) (heap s)"
    and p0: "pending s' =
       (if rp_remaining resp = 0
        then filter (\<lambda>p. t_id (heap s' ! p) \<noteq> ?i) (pending s)
        else pending s)"
    and fi: "filas s' = filas s"
    by (auto elim: processar_InrE)
  from fi have env: "enviadas s' = enviadas s" by (simp add: enviadas_def)
  have "(worker resp, ?i) \<in># mset (enviadas s)"
    using env_ok by (simp add: insert_subset_eq_iff)
  then have "(worker resp, ?i) \<in> set (enviadas s)" by simp
  with i6 have "?i \<in> t_id ` set (heap s)" by force
  then obtain a where len: "a < length (heap s)" and ia: "t_id (heap s ! a) = ?i"
    by (auto simp: in_set_conv_nth)
  have "da_tarefa ?i ((worker resp, ?i) # rs) \<le> da_tarefa ?i (enviadas s)"
    unfolding da_tarefa_def using env_ok by (intro length_filter_mset_mono) simp
  then have gt: "da_tarefa ?i rs < da_tarefa ?i (enviadas s)"
    by (simp add: da_tarefa_Cons)
  from i5 len ia have
    "da_tarefa ?i (enviadas s) = da_tarefa ?i rs + (if running (heap s ! a) then 1 else 0)"
    by force
  with gt have ra: "running (heap s ! a)" and cnt: "da_tarefa ?i (enviadas s) = da_tarefa ?i rs + 1"
    by (auto split: if_splits)
  with i4 len have ap: "a \<in> set (pending s)" by blast
  have uniq: "\<forall>p\<in>set (pending s). t_id (heap s ! p) = ?i \<longrightarrow> p = a"
  proof (intro ballI impI)
    fix p assume "p \<in> set (pending s)" and e: "t_id (heap s ! p) = ?i"
    with i3 have "p < length (heap s)" by blast
    from ids_distintos_nth [OF i1 this len] e ia show "p = a" by simp
  qed
  have h: "heap s' = (heap s)[a := (heap s ! a)\<lparr>remaining := rp_remaining resp, running := False\<rparr>]"
    unfolding h0 using ap ia uniq by (rule atualizar_tarefa_match)
  have "filter (\<lambda>p. t_id (heap s' ! p) \<noteq> ?i) (pending s) = filter (\<lambda>p. p \<noteq> a) (pending s)"
    unfolding h using len ia uniq by (rule filter_apos_match)
  with p0 have p: "pending s' = (if rp_remaining resp = 0 then filter (\<lambda>p. p \<noteq> a) (pending s)
                                  else pending s)"
    by simp
  have psub: "set (pending s') \<subseteq> set (pending s)"
    and psup: "\<And>b. b \<in> set (pending s) \<Longrightarrow> b \<noteq> a \<Longrightarrow> b \<in> set (pending s')"
    by (auto simp: p)
  have ids: "map t_id (heap s') = map t_id (heap s)"
    unfolding h using len by (rule map_t_id_update) simp
  have lh: "length (heap s') = length (heap s)"
    by (simp add: h)
  have sh: "t_id ` set (heap s') = t_id ` set (heap s)"
    using ids by (metis set_map)
  have nth_a: "heap s' ! a = (heap s ! a)\<lparr>remaining := rp_remaining resp, running := False\<rparr>"
    using len by (simp add: h)
  have nth_b: "heap s' ! b = heap s ! b" if "b \<noteq> a" for b
    using that by (simp add: h)
  have id_b: "t_id (heap s ! b) \<noteq> ?i" if "b < length (heap s)" "b \<noteq> a" for b
    using ids_distintos_nth [OF i1 that(1) len] that(2) ia by auto
  have j1: "distinct (map t_id (heap s'))"
    using i1 by (simp add: ids)
  have j2: "distinct (pending s')"
    using i2 by (simp add: p)
  have j3: "\<forall>p\<in>set (pending s'). p < length (heap s')"
    using i3 psub by (auto simp: lh)
  have j4: "\<forall>b<length (heap s'). running (heap s' ! b) \<longrightarrow> b \<in> set (pending s')"
  proof (intro allI impI)
    fix b assume b: "b < length (heap s')" and r: "running (heap s' ! b)"
    from r nth_a have ba: "b \<noteq> a" by auto
    with r have "running (heap s ! b)" by (simp add: nth_b)
    with i4 b have "b \<in> set (pending s)" by (simp add: lh)
    with ba show "b \<in> set (pending s')" by (rule psup [rotated -1]) 
  qed
  have j5: "\<forall>b<length (heap s').
           da_tarefa (t_id (heap s' ! b)) (enviadas s') =
             da_tarefa (t_id (heap s' ! b)) ((worker resp, ?i) # rs) +
               (if running (heap s' ! b) then 1 else 0)"
  proof (intro allI impI)
    fix b assume b: "b < length (heap s')"
    then have bl: "b < length (heap s)" by (simp add: lh)
    show "da_tarefa (t_id (heap s' ! b)) (enviadas s') =
             da_tarefa (t_id (heap s' ! b)) ((worker resp, ?i) # rs) +
               (if running (heap s' ! b) then 1 else 0)"
    proof (cases "b = a")
      case True
      with cnt ia show ?thesis
        by (simp add: nth_a env da_tarefa_Cons)
    next
      case False
      from i5 bl have "da_tarefa (t_id (heap s ! b)) (enviadas s) =
             da_tarefa (t_id (heap s ! b)) rs + (if running (heap s ! b) then 1 else 0)"
        by blast
      with False id_b [OF bl False] show ?thesis
        by (simp add: nth_b env da_tarefa_Cons)
    qed
  qed
  have j6: "\<forall>x\<in>set (enviadas s'). snd x \<in> t_id ` set (heap s')"
    using i6 by (simp add: env sh)
  have j7: "mset ((worker resp, ?i) # rs) \<subseteq># mset (enviadas s')"
    using env_ok by (simp add: env)
  have j9: "\<forall>b\<in>set els. b \<in> set (pending s') \<and> \<not> running (heap s' ! b)"
  proof
    fix b assume "b \<in> set els"
    with i9 have bp: "b \<in> set (pending s)" and br: "\<not> running (heap s ! b)" by blast+
    from br ra have ba: "b \<noteq> a" by blast
    with bp have "b \<in> set (pending s')" by (rule psup)
    with br ba show "b \<in> set (pending s') \<and> \<not> running (heap s' ! b)"
      by (simp add: nth_b)
  qed
  show ?thesis
    unfolding inv_exclusao_def using j1 j2 j3 j4 j5 j6 j7 i8 j9 by blast
qed

lemma alcancavel_inv_exclusao:
  assumes "alcancavel sched policy cfg start els s rs"
    and "contrato sched"
    and "distinct (map r_id (requisicoes cfg))"
  shows "inv_exclusao s els rs"
  using assms
proof (induction rule: alcancavel.induct)
  case inicio
  then show ?case by (simp add: inv_exclusao_inicio)
next
  case (ciclo els s rs)
  then show ?case by (simp add: inv_exclusao_ciclo)
next
  case (atrib els s rs elapsed els' s')
  then have "inv_exclusao s els rs" by simp
  from this atrib.prems(1) atrib.hyps(2,4) show ?case
    by (rule inv_exclusao_atribuir)
next
  case (dreno els s rs resp now2 s')
  then have "inv_exclusao s els rs" by simp
  from this dreno.hyps(2,3) show ?case
    by (rule inv_exclusao_processar)
qed

lemma contrato_Scheduler: "contrato (Scheduler policy)"
  unfolding contrato_def
proof (intro conjI allI impI)
  fix h els
  show "mset (reorder (Scheduler policy) h els) = mset els"
    by (simp add: Scheduler_def)
next
  fix h els a r
  assume "els \<noteq> []" and "next_task (Scheduler policy) h els = (a, r)"
  then show "mset els = add_mset a (mset r)"
    by (cases els) (auto simp: Scheduler_def)
qed

text \<open>
  Claim C8. With unique request ids, a scheduler that hands out each eligible task once,
  and every drained response answering a message sent before and not yet answered: in
  every state the loop reaches, the messages sent for a task exceed its responses drained
  by at most one, by exactly one when the task is running and by none when it is not,
  and the tasks still held as eligible are not running. So a task is never sent to a
  second server while a message for it awaits its response.
\<close>

theorem exclusao_mutua:
  assumes "alcancavel sched policy cfg start els s rs"
    and "contrato sched"
    and "distinct (map r_id (requisicoes cfg))"
  shows "da_tarefa i (enviadas s) \<le> da_tarefa i rs + 1 \<and>
         (\<forall>a<length (heap s).
            da_tarefa (t_id (heap s ! a)) (enviadas s) =
              da_tarefa (t_id (heap s ! a)) rs + (if running (heap s ! a) then 1 else 0)) \<and>
         (\<forall>a\<in>set els. \<not> running (heap s ! a))"
proof -
  from assms have inv: "inv_exclusao s els rs" by (rule alcancavel_inv_exclusao)
  then have
    i5: "\<forall>a<length (heap s).
           da_tarefa (t_id (heap s ! a)) (enviadas s) =
             da_tarefa (t_id (heap s ! a)) rs + (if running (heap s ! a) then 1 else 0)" and
    i6: "\<forall>x\<in>set (enviadas s). snd x \<in> t_id ` set (heap s)" and
    i9: "\<forall>a\<in>set els. a \<in> set (pending s) \<and> \<not> running (heap s ! a)"
    unfolding inv_exclusao_def by blast+
  have "da_tarefa i (enviadas s) \<le> da_tarefa i rs + 1"
  proof (cases "i \<in> t_id ` set (heap s)")
    case True
    then obtain a where "a < length (heap s)" "t_id (heap s ! a) = i"
      by (auto simp: in_set_conv_nth)
    with i5 have "da_tarefa i (enviadas s) =
                    da_tarefa i rs + (if running (heap s ! a) then 1 else 0)"
      by force
    then show ?thesis by simp
  next
    case False
    with i6 have "filter (\<lambda>x. snd x = i) (enviadas s) = []"
      by (auto simp: filter_empty_conv)
    then show ?thesis by (simp add: da_tarefa_def)
  qed
  with i5 i9 show ?thesis by blast
qed

theorem exclusao_mutua_witness:
  "alcancavel (Scheduler ''rr'') ''rr'' cfg_ex 0 [] s_run [] \<and>
   map r_id (requisicoes cfg_ex) = [7] \<and>
   enviadas s_run = [(2, 7)] \<and> running (heap s_run ! 0) \<and>
   da_tarefa 7 (enviadas s_run) = 1 \<and> da_tarefa 7 [] = 0"
proof -
  have 3: "distinct (map r_id (requisicoes cfg_ex))"
    by (simp add: cfg_ex_def)
  have 4: "map r_id (requisicoes cfg_ex) = [7]"
    by (simp add: cfg_ex_def)
  have 5: "enviadas s_run = [(2, 7)]"
    by (simp add: enviadas_def s_run_def ex_defs)
  have 6: "running (heap s_run ! 0)" and 7: "t_id (heap s_run ! 0) = 7"
    and 8: "0 < length (heap s_run)"
    by (simp_all add: s_run_def ex_defs)
  from exclusao_mutua [OF alcancavel_s_run contrato_Scheduler 3, of 7] 6 7 8
  have "da_tarefa 7 (enviadas s_run) = da_tarefa 7 [] + 1"
    by force
  moreover have "da_tarefa 7 [] = 0" by (simp add: da_tarefa_def)
  ultimately show ?thesis
    using alcancavel_s_run 4 5 6 by simp
qed

subsection \<open>The loops of the run stay within these states\<close>

text \<open>
  The assignment loop and the drain are made of the steps of \<open>alcancavel\<close>: from a state
  of the relation the assignment loop ends in one, and so does a drain whose responses
  each answer a message sent and not yet answered.
\<close>

lemma atribuir_loop_alcancavel:
  assumes "atribuir_loop sched policy q elapsed els s = Inr s'"
    and "q = quantum cfg"
    and "alcancavel sched policy cfg start els s rs"
  shows "\<exists>els'. alcancavel sched policy cfg start els' s' rs"
  using assms
proof (induction sched policy q elapsed els s rule: atribuir_loop.induct)
  case (1 sched policy q elapsed els s)
  show ?case
  proof (cases "els \<noteq> [] \<and> livres_de (estados s) \<noteq> []")
    case True
    from "1.prems"(1) True obtain els1 s1 where
      a: "atribuir sched policy q elapsed els s = Inr (els1, s1)"
      and l: "atribuir_loop sched policy q elapsed els1 s1 = Inr s'"
      by (subst (asm) atribuir_loop.simps) (auto split: sum.splits)
    from True a "1.prems"(2,3) have "alcancavel sched policy cfg start els1 s1 rs"
      by (auto intro: alcancavel.atrib)
    with "1.IH" [OF True a refl l "1.prems"(2)] show ?thesis .
  next
    case False
    with "1.prems"(1) have "s' = s"
      by (subst (asm) atribuir_loop.simps) auto
    with "1.prems"(3) show ?thesis by blast
  qed
qed

lemma drenar_alcancavel:
  assumes "alcancavel sched policy cfg start els s rs"
    and "drenar start batch s = Inr s'"
    and "mset (map chave batch) + mset rs \<subseteq># mset (enviadas s)"
  shows "alcancavel sched policy cfg start els s' (rev (map chave batch) @ rs)"
  using assms
proof (induction batch arbitrary: s rs)
  case Nil
  then show ?case by simp
next
  case (Cons x rest)
  obtain now2 resp where x: "x = (now2, resp)" by (cases x)
  from Cons.prems(2) x obtain s1 where
    p: "processar_resposta start now2 resp s = Inr s1"
    and d: "drenar start rest s1 = Inr s'"
    by (auto split: sum.splits)
  from p have "filas s1 = filas s" by (auto elim: processar_InrE)
  then have env: "enviadas s1 = enviadas s" by (simp add: enviadas_def)
  have cx: "chave x = (worker resp, rp_id resp)"
    by (simp add: x chave_def)
  have "add_mset (worker resp, rp_id resp) (mset rs) \<subseteq>#
          mset (map chave (x # rest)) + mset rs"
    by (simp add: cx)
  with Cons.prems(3) have ok: "add_mset (worker resp, rp_id resp) (mset rs) \<subseteq># mset (enviadas s)"
    by (rule subset_mset.trans [rotated])
  from Cons.prems(1) ok p have r: "alcancavel sched policy cfg start els s1
                                    ((worker resp, rp_id resp) # rs)"
    by (rule alcancavel.dreno)
  have "mset (map chave rest) + mset ((worker resp, rp_id resp) # rs) \<subseteq># mset (enviadas s1)"
    using Cons.prems(3) by (simp add: cx env)
  from Cons.IH [OF r d this] show ?case
    by (simp add: cx)
qed

section \<open>The run, cycle by cycle\<close>

lemma alcancavel_percorre:
  "alcancavel sched policy cfg start els s rs \<Longrightarrow> percorre sched policy cfg start s"
  by (induction rule: alcancavel.induct) (auto intro: percorre.intros)

lemma atribuir_loop_percorre:
  assumes "atribuir_loop sched policy q elapsed els s = Inr s'"
    and "q = quantum cfg"
    and "percorre sched policy cfg start s"
  shows "percorre sched policy cfg start s'"
  using assms
proof (induction sched policy q elapsed els s rule: atribuir_loop.induct)
  case (1 sched policy q elapsed els s)
  show ?case
  proof (cases "els \<noteq> [] \<and> livres_de (estados s) \<noteq> []")
    case True
    from "1.prems"(1) True obtain els1 s1 where
      a: "atribuir sched policy q elapsed els s = Inr (els1, s1)"
      and l: "atribuir_loop sched policy q elapsed els1 s1 = Inr s'"
      by (subst (asm) atribuir_loop.simps) (auto split: sum.splits)
    from a "1.prems"(2,3) have "percorre sched policy cfg start s1"
      by (auto intro: percorre.p_atrib)
    with "1.IH" [OF True a refl l "1.prems"(2)] show ?thesis .
  next
    case False
    with "1.prems"(1) have "s' = s"
      by (subst (asm) atribuir_loop.simps) auto
    with "1.prems"(3) show ?thesis by simp
  qed
qed

lemma drenar_percorre:
  assumes "percorre sched policy cfg start s" and "drenar start batch s = Inr s'"
  shows "percorre sched policy cfg start s'"
  using assms
proof (induction batch arbitrary: s)
  case Nil
  then show ?case by simp
next
  case (Cons x rest)
  obtain now2 resp where x: "x = (now2, resp)" by (cases x)
  from Cons.prems(2) x obtain s1 where
    p: "processar_resposta start now2 resp s = Inr s1"
    and d: "drenar start rest s1 = Inr s'"
    by (auto split: sum.splits)
  from Cons.prems(1) p have "percorre sched policy cfg start s1"
    by (rule percorre.p_dreno)
  from this d show ?case by (rule Cons.IH)
qed

lemma percorre_inv_restante:
  assumes "percorre sched policy cfg start s"
    and "\<forall>r\<in>set (requisicoes cfg). 0 < tempo_exec r"
  shows "inv_restante s"
  using assms
proof (induction rule: percorre.induct)
  case p_inicio
  then show ?case by (rule inv_restante_inicio)
next
  case (p_atrib s elapsed els els' s')
  then show ?case by (auto intro: inv_restante_atribuir)
next
  case (p_dreno s now2 resp s')
  then show ?case by (auto intro: inv_restante_processar)
qed

text \<open>
  Claim C5. When every request has a positive execution time, a cycle of the loop, taken
  from any state of a run, ends the loop exactly when no task is pending after its drain:
  the condition of line 159 holds there if and only if \<open>pending\<close> is empty, the cycle
  returns that state when it is and goes on to the next cycle from it when it is not. The
  state after the drain is again a state of the run, so this holds for every cycle.
\<close>

theorem condicao_de_parada:
  assumes "percorre sched policy cfg start s"
    and "\<forall>r\<in>set (requisicoes cfg). 0 < tempo_exec r"
    and "atribuir_loop sched policy (quantum cfg) (agora tq - start)
           (reorder sched (heap s) (elegiveis_de s)) s = Inr s1"
    and "drenar start (respostas tq) s1 = Inr s2"
  shows "(condicao_parada s2 \<longleftrightarrow> pending s2 = []) \<and>
         ciclos sched policy (quantum cfg) start (tq # tqs) s =
           (if pending s2 = [] then Some (Inr s2)
            else ciclos sched policy (quantum cfg) start tqs s2) \<and>
         percorre sched policy cfg start s2"
proof -
  from assms(3) refl assms(1) have "percorre sched policy cfg start s1"
    by (rule atribuir_loop_percorre)
  from this assms(4) have p2: "percorre sched policy cfg start s2"
    by (rule drenar_percorre)
  from p2 assms(2) have "inv_restante s2"
    by (rule percorre_inv_restante)
  then have e: "condicao_parada s2 \<longleftrightarrow> pending s2 = []"
    by (cases "pending s2") (auto simp: condicao_parada_def inv_restante_def)
  have "ciclos sched policy (quantum cfg) start (tq # tqs) s =
          (if condicao_parada s2 then Some (Inr s2)
           else ciclos sched policy (quantum cfg) start tqs s2)"
    using assms(3,4) by (simp add: Let_def)
  with e p2 show ?thesis by simp
qed

lemma atribuir_loop_ex:
  "atribuir_loop (Scheduler ''rr'') ''rr'' (quantum cfg_ex) (agora (tq_ex r) - 0)
     (reorder (Scheduler ''rr'') (heap (estado_inicial 0 cfg_ex))
        (elegiveis_de (estado_inicial 0 cfg_ex))) (estado_inicial 0 cfg_ex) = Inr s_run"
proof -
  let ?s0 = "estado_inicial 0 cfg_ex"
  have els: "reorder (Scheduler ''rr'') (heap ?s0) (elegiveis_de ?s0) = [0]"
    by (simp add: elegiveis_de_def ex_defs)
  have l: "livres_de (estados ?s0) \<noteq> []"
    by (simp add: ex_defs)
  have e: "agora (tq_ex r) - 0 = 0"
    by (simp add: tq_ex_def)
  have a: "atribuir (Scheduler ''rr'') ''rr'' (quantum cfg_ex) 0 [0] ?s0 = Inr ([], s_run)"
    by (simp add: s_run_def ex_defs)
  show ?thesis
    unfolding els e by (subst atribuir_loop.simps) (simp add: l a atribuir_loop_Nil)
qed

lemma drenar_ex:
  "r = 0 \<or> r = 3 \<Longrightarrow> drenar 0 (respostas (tq_ex r)) s_run = Inr (apos r)"
proof -
  assume "r = 0 \<or> r = 3"
  then have "\<exists>s2. drenar 0 (respostas (tq_ex r)) s_run = Inr s2"
    by (auto simp: tq_ex_def run_defs ex_defs)
  then show ?thesis
    by (auto simp: apos_def)
qed

theorem condicao_de_parada_witness:
  "pending (apos 0) = [] \<and>
   ciclos (Scheduler ''rr'') ''rr'' (quantum cfg_ex) 0 [tq_ex 0] (estado_inicial 0 cfg_ex) =
     Some (Inr (apos 0)) \<and>
   pending (apos 3) = [0] \<and>
   ciclos (Scheduler ''rr'') ''rr'' (quantum cfg_ex) 0 [tq_ex 3, tq_ex 0] (estado_inicial 0 cfg_ex) =
     ciclos (Scheduler ''rr'') ''rr'' (quantum cfg_ex) 0 [tq_ex 0] (apos 3)"
proof -
  have 1: "percorre (Scheduler ''rr'') ''rr'' cfg_ex 0 (estado_inicial 0 cfg_ex)"
    by (rule percorre.p_inicio)
  have 2: "\<forall>r\<in>set (requisicoes cfg_ex). 0 < tempo_exec r"
    by (simp add: cfg_ex_def)
  have d0: "drenar 0 (respostas (tq_ex 0)) s_run = Inr (apos 0)"
    by (rule drenar_ex) simp
  have d3: "drenar 0 (respostas (tq_ex 3)) s_run = Inr (apos 3)"
    by (rule drenar_ex) simp
  have p0: "pending (apos 0) = []"
    by (simp add: apos_def tq_ex_def run_defs ex_defs)
  have p3: "pending (apos 3) = [0]"
    by (simp add: apos_def tq_ex_def run_defs ex_defs)
  from condicao_de_parada [OF 1 2 atribuir_loop_ex d0, of "[]"] p0
  have a: "ciclos (Scheduler ''rr'') ''rr'' (quantum cfg_ex) 0 [tq_ex 0] (estado_inicial 0 cfg_ex) =
     Some (Inr (apos 0))"
    by simp
  from condicao_de_parada [OF 1 2 atribuir_loop_ex d3, of "[tq_ex 0]"] p3
  have b: "ciclos (Scheduler ''rr'') ''rr'' (quantum cfg_ex) 0 [tq_ex 3, tq_ex 0] (estado_inicial 0 cfg_ex) =
     ciclos (Scheduler ''rr'') ''rr'' (quantum cfg_ex) 0 [tq_ex 0] (apos 3)"
    by simp
  from p0 a p3 b show ?thesis by blast
qed

subsection \<open>The drain, response by response\<close>

lemma map_t_id_atualizar: "map t_id (atualizar_tarefa resp ps h) = map t_id h"
proof (induction ps)
  case Nil
  show ?case by simp
next
  case (Cons p ps)
  show ?case
  proof (cases "t_id (h ! p) = rp_id resp")
    case True
    show ?thesis
    proof (cases "p < length h")
      case True
      then have "map t_id (h[p := (h ! p)\<lparr>remaining := rp_remaining resp, running := False\<rparr>])
                   = map t_id h"
        by (rule map_t_id_update) simp
      with \<open>t_id (h ! p) = rp_id resp\<close> show ?thesis by simp
    next
      case False
      then have "length h \<le> p" by simp
      then have "h[p := (h ! p)\<lparr>remaining := rp_remaining resp, running := False\<rparr>] = h"
        by (rule list_update_beyond)
      with \<open>t_id (h ! p) = rp_id resp\<close> show ?thesis by simp
    qed
  next
    case False
    with Cons.IH show ?thesis by simp
  qed
qed

lemma percorre_inv_ids:
  assumes "percorre sched policy cfg start s"
  shows "inv_ids cfg s"
  using assms
proof (induction rule: percorre.induct)
  case p_inicio
  show ?case
    by (simp add: inv_ids_def estado_inicial_def nova_tarefa_def)
next
  case (p_atrib s elapsed els els' s')
  from p_atrib.hyps(2) obtain a sid where
    len: "a < length (heap s)"
    and h: "heap s' = (heap s)[a := (heap s ! a)\<lparr>running := True, last_worker := Some sid\<rparr>]"
    and p: "pending s' = pending s"
    by (rule atribuir_InrE)
  have "map t_id (heap s') = map t_id (heap s)"
    unfolding h using len by (rule map_t_id_update) simp
  with p_atrib.IH p show ?case
    by (simp add: inv_ids_def h)
next
  case (p_dreno s now2 resp s')
  from p_dreno.hyps(2) have
    h: "heap s' = atualizar_tarefa resp (pending s) (heap s)"
    and p: "pending s' =
       (if rp_remaining resp = 0
        then filter (\<lambda>p. t_id (heap s' ! p) \<noteq> rp_id resp) (pending s)
        else pending s)"
    by (auto elim: processar_InrE)
  from p have "set (pending s') \<subseteq> set (pending s)"
    by (auto split: if_splits)
  with p_dreno.IH show ?case
    by (auto simp: inv_ids_def h map_t_id_atualizar)
qed

lemma percorre_inv_reg:
  assumes "percorre sched policy cfg start s"
  shows "inv_reg s"
  using assms
proof (induction rule: percorre.induct)
  case p_inicio
  show ?case
    by (simp add: inv_reg_def enviadas_def estado_inicial_def)
next
  case (p_atrib s elapsed els els' s')
  from p_atrib.hyps(2) obtain a sid st where
    es: "estados s' = dict_set (estados s) sid (st\<lparr>load := load st + 1\<rparr>)"
    and fi: "filas s' = filas s @ [(sid, construir_msg policy (quantum cfg) ((heap s ! a)\<lparr>running := True\<rparr>))]"
    and co: "completed s' =
       (if tab (completed s) (t_id (heap s ! a)) \<noteq> None then completed s
        else dict_set (completed s) (t_id (heap s ! a))
               \<lparr>c_arrival = arrival_time (heap s ! a), c_end = None\<rparr>)"
    by (rule atribuir_InrE)
  from fi have env: "enviadas s' = enviadas s @ [(sid, t_id (heap s ! a))]"
    by (simp add: enviadas_atribuir)
  have e: "tab (estados s') w \<noteq> None" if "tab (estados s) w \<noteq> None \<or> w = sid" for w
    using that by (auto simp: es dict_set_def)
  have c: "tab (completed s') i \<noteq> None"
    if "tab (completed s) i \<noteq> None \<or> i = t_id (heap s ! a)" for i
    using that by (auto simp: co dict_set_def)
  show ?case
    unfolding inv_reg_def
  proof
    fix x assume "x \<in> set (enviadas s')"
    then have "x \<in> set (enviadas s) \<or> x = (sid, t_id (heap s ! a))"
      by (auto simp: env)
    then show "tab (estados s') (fst x) \<noteq> None \<and> tab (completed s') (snd x) \<noteq> None"
    proof
      assume "x \<in> set (enviadas s)"
      with p_atrib.IH have "tab (estados s) (fst x) \<noteq> None" "tab (completed s) (snd x) \<noteq> None"
        by (auto simp: inv_reg_def)
      then show ?thesis using e c by blast
    next
      assume "x = (sid, t_id (heap s ! a))"
      then show ?thesis using e c by simp
    qed
  qed
next
  case (p_dreno s now2 resp s')
  from p_dreno.hyps(2) obtain st where
    es: "estados s' = dict_set (estados s) (worker resp)
                    (st\<lparr>busy := busy st + duration resp, load := load st - 1\<rparr>)"
    and fi: "filas s' = filas s"
    by (rule processar_InrE)
  from fi have env: "enviadas s' = enviadas s" by (simp add: enviadas_def)
  have e: "tab (estados s') w \<noteq> None" if "tab (estados s) w \<noteq> None" for w
    using that by (auto simp: es dict_set_def)
  have c: "tab (completed s') i \<noteq> None" if "tab (completed s) i \<noteq> None" for i
    using that p_dreno.hyps(2)
    by (auto simp: processar_resposta_def Let_def dict_set_def split: option.splits if_splits)
  show ?case
    unfolding inv_reg_def
  proof
    fix x assume "x \<in> set (enviadas s')"
    with p_dreno.IH env have "tab (estados s) (fst x) \<noteq> None" "tab (completed s) (snd x) \<noteq> None"
      by (auto simp: inv_reg_def)
    then show "tab (estados s') (fst x) \<noteq> None \<and> tab (completed s') (snd x) \<noteq> None"
      using e c by blast
  qed
qed

text \<open>
  Claim C3. In a state of a run with unique request ids, the drain takes a response that
  answers a message sent and whose task is pending as follows: the server of the response
  loses 1 of its load and gains the duration in \<open>busy\<close>, the task gets the response's
  \<open>remaining\<close> and \<open>running = False\<close>, and the drain goes on with the other responses
  from that state. The task has a completion record. When the remaining time is 0 the
  record gets its end time, the task leaves \<open>pending\<close> and a completion line is printed;
  otherwise a preemption line is printed and the task stays pending.
\<close>

theorem resposta_drenada:
  assumes "percorre sched policy cfg start s"
    and "distinct (map r_id (requisicoes cfg))"
    and "(worker resp, rp_id resp) \<in> set (enviadas s)"
    and "a \<in> set (pending s)" and "t_id (heap s ! a) = rp_id resp"
  shows "\<exists>s' st c.
           tab (estados s) (worker resp) = Some st \<and>
           tab (completed s) (rp_id resp) = Some c \<and>
           drenar start [(now2, resp)] s = Inr s' \<and>
           drenar start ((now2, resp) # rest) s = drenar start rest s' \<and>
           tab (estados s') (worker resp) =
             Some (st\<lparr>busy := busy st + duration resp, load := load st - 1\<rparr>) \<and>
           (\<forall>w. w \<noteq> worker resp \<longrightarrow> tab (estados s') w = tab (estados s) w) \<and>
           heap s' = (heap s)[a := (heap s ! a)\<lparr>remaining := rp_remaining resp, running := False\<rparr>] \<and>
           (if rp_remaining resp = 0
            then tab (completed s') (rp_id resp) = Some (c\<lparr>c_end := Some now2\<rparr>) \<and>
                 pending s' = filter (\<lambda>p. p \<noteq> a) (pending s) \<and>
                 saida s' = saida s @
                   [Conclusao (now2 - start) (worker resp) (rp_id resp) (cpu resp) (memory resp)]
            else completed s' = completed s \<and> pending s' = pending s \<and>
                 saida s' = saida s @
                   [Preempcao (now2 - start) (worker resp) (rp_id resp) (rp_remaining resp)
                      (cpu resp) (memory resp)])"
proof -
  from assms(1) have ids: "inv_ids cfg s" and reg: "inv_reg s"
    by (rule percorre_inv_ids, rule percorre_inv_reg)
  from ids assms(2) have di: "distinct (map t_id (heap s))"
    and val: "\<forall>p\<in>set (pending s). p < length (heap s)"
    by (simp_all add: inv_ids_def)
  from val assms(4) have len: "a < length (heap s)" by blast
  have uniq: "\<forall>p\<in>set (pending s). t_id (heap s ! p) = rp_id resp \<longrightarrow> p = a"
  proof (intro ballI impI)
    fix p assume "p \<in> set (pending s)" and e: "t_id (heap s ! p) = rp_id resp"
    with val have "p < length (heap s)" by blast
    from ids_distintos_nth [OF di this len] e assms(5) show "p = a" by simp
  qed
  from reg assms(3) obtain st c where
    st: "tab (estados s) (worker resp) = Some st"
    and c: "tab (completed s) (rp_id resp) = Some c"
    by (fastforce simp: inv_reg_def)
  from c have c': "rp_remaining resp = 0 \<longrightarrow> tab (completed s) (rp_id resp) = Some c"
    by simp
  from processar_resposta_unica [OF st assms(4) len assms(5) uniq c', of start now2]
  obtain s' where
    pr: "processar_resposta start now2 resp s = Inr s'"
    and rest: "tab (estados s') (worker resp) =
             Some (st\<lparr>busy := busy st + duration resp, load := load st - 1\<rparr>) \<and>
           (\<forall>w. w \<noteq> worker resp \<longrightarrow> tab (estados s') w = tab (estados s) w) \<and>
           heap s' = (heap s)[a := (heap s ! a)\<lparr>remaining := rp_remaining resp, running := False\<rparr>] \<and>
           (if rp_remaining resp = 0
            then tab (completed s') (rp_id resp) = Some (c\<lparr>c_end := Some now2\<rparr>) \<and>
                 pending s' = filter (\<lambda>p. p \<noteq> a) (pending s) \<and>
                 saida s' = saida s @
                   [Conclusao (now2 - start) (worker resp) (rp_id resp) (cpu resp) (memory resp)]
            else completed s' = completed s \<and> pending s' = pending s \<and>
                 saida s' = saida s @
                   [Preempcao (now2 - start) (worker resp) (rp_id resp) (rp_remaining resp)
                      (cpu resp) (memory resp)])"
    by blast
  from pr have d1: "drenar start [(now2, resp)] s = Inr s'"
    and d2: "drenar start ((now2, resp) # rest) s = drenar start rest s'"
    by simp_all
  from st c d1 d2 rest show ?thesis by blast
qed

theorem resposta_drenada_witness:
  "enviadas s_run = [(2, 7)] \<and> pending s_run = [0] \<and> t_id (heap s_run ! 0) = 7 \<and>
   (\<exists>s'. drenar 0 [(4, resp_ex 2 7 0)] s_run = Inr s' \<and>
      tab (estados s') 2 = Some \<lparr>cap = 1, load = 0, busy = 2\<rparr> \<and>
      remaining (heap s' ! 0) = 0 \<and> \<not> running (heap s' ! 0) \<and>
      tab (completed s') 7 = Some \<lparr>c_arrival = 0, c_end = Some 4\<rparr> \<and>
      pending s' = [] \<and>
      saida s' = saida s_run @ [Conclusao 4 2 7 50 10]) \<and>
   (\<exists>s'. drenar 0 [(4, resp_ex 2 7 3)] s_run = Inr s' \<and>
      tab (estados s') 2 = Some \<lparr>cap = 1, load = 0, busy = 2\<rparr> \<and>
      remaining (heap s' ! 0) = 3 \<and> \<not> running (heap s' ! 0) \<and>
      completed s' = completed s_run \<and>
      pending s' = [0] \<and>
      saida s' = saida s_run @ [Preempcao 4 2 7 3 50 10])"
proof -
  have 1: "percorre (Scheduler ''rr'') ''rr'' cfg_ex 0 s_run"
    using alcancavel_s_run by (rule alcancavel_percorre)
  have 2: "distinct (map r_id (requisicoes cfg_ex))"
    by (simp add: cfg_ex_def)
  have env: "enviadas s_run = [(2, 7)]"
    by (simp add: enviadas_def s_run_def ex_defs)
  have pe: "pending s_run = [0]" and id: "t_id (heap s_run ! 0) = 7"
    and len: "0 < length (heap s_run)"
    by (simp_all add: s_run_def ex_defs)
  have st: "tab (estados s_run) 2 = Some \<lparr>cap = 1, load = 1, busy = 0\<rparr>"
    and c: "tab (completed s_run) 7 = Some \<lparr>c_arrival = 0, c_end = None\<rparr>"
    by (simp_all add: s_run_def ex_defs)
  have r3: "(worker (resp_ex 2 7 r), rp_id (resp_ex 2 7 r)) \<in> set (enviadas s_run)" for r
    by (simp add: env resp_ex_def)
  have 4: "0 \<in> set (pending s_run)" by (simp add: pe)
  have r5: "t_id (heap s_run ! 0) = rp_id (resp_ex 2 7 r)" for r
    by (simp add: id resp_ex_def)
  from resposta_drenada [of _ _ _ _ _ _ _ 4 "[]", OF 1 2 r3 [of 0] 4 r5 [of 0]] st c
  obtain s0 where
    "drenar 0 [(4, resp_ex 2 7 0)] s_run = Inr s0"
    "tab (estados s0) 2 = Some \<lparr>cap = 1, load = 0, busy = 2\<rparr>"
    "heap s0 = (heap s_run)[0 := (heap s_run ! 0)\<lparr>remaining := 0, running := False\<rparr>]"
    "tab (completed s0) 7 = Some \<lparr>c_arrival = 0, c_end = Some 4\<rparr>"
    "pending s0 = filter (\<lambda>p. p \<noteq> 0) (pending s_run)"
    "saida s0 = saida s_run @ [Conclusao 4 2 7 50 10]"
    by (auto simp: resp_ex_def)
  with len pe have a: "\<exists>s'. drenar 0 [(4, resp_ex 2 7 0)] s_run = Inr s' \<and>
      tab (estados s') 2 = Some \<lparr>cap = 1, load = 0, busy = 2\<rparr> \<and>
      remaining (heap s' ! 0) = 0 \<and> \<not> running (heap s' ! 0) \<and>
      tab (completed s') 7 = Some \<lparr>c_arrival = 0, c_end = Some 4\<rparr> \<and>
      pending s' = [] \<and>
      saida s' = saida s_run @ [Conclusao 4 2 7 50 10]"
    by auto
  from resposta_drenada [of _ _ _ _ _ _ _ 4 "[]", OF 1 2 r3 [of 3] 4 r5 [of 3]] st c
  obtain s3 where
    "drenar 0 [(4, resp_ex 2 7 3)] s_run = Inr s3"
    "tab (estados s3) 2 = Some \<lparr>cap = 1, load = 0, busy = 2\<rparr>"
    "heap s3 = (heap s_run)[0 := (heap s_run ! 0)\<lparr>remaining := 3, running := False\<rparr>]"
    "completed s3 = completed s_run"
    "pending s3 = pending s_run"
    "saida s3 = saida s_run @ [Preempcao 4 2 7 3 50 10]"
    by (auto simp: resp_ex_def)
  with len pe have b: "\<exists>s'. drenar 0 [(4, resp_ex 2 7 3)] s_run = Inr s' \<and>
      tab (estados s') 2 = Some \<lparr>cap = 1, load = 0, busy = 2\<rparr> \<and>
      remaining (heap s' ! 0) = 3 \<and> \<not> running (heap s' ! 0) \<and>
      completed s' = completed s_run \<and>
      pending s' = [0] \<and>
      saida s' = saida s_run @ [Preempcao 4 2 7 3 50 10]"
    by auto
  from env pe id a b show ?thesis by blast
qed

end
